theory Spec2Isabelle
  imports Main "HOL-Library.Sublist"
begin

section \<open>Strings\<close>

text \<open>
  Python strings are modelled as \<^typ>\<open>string\<close>. The two characters that cannot be
  written inside a string literal here get a name.
\<close>

definition dquote :: char where
  "dquote = CHR 0x22"

definition newline :: char where
  "newline = CHR 0x0A"

text \<open>Python's \<^verbatim>\<open>s in h\<close> on strings: \<open>s\<close> occurs in \<open>h\<close> as a contiguous run.\<close>

fun str_in :: "string \<Rightarrow> string \<Rightarrow> bool" where
  "str_in s [] = (s = [])"
| "str_in s (c # cs) = (prefix s (c # cs) \<or> str_in s cs)"

text \<open>Python's \<^verbatim>\<open>s.split(',')\<close>: cut at every comma, keeping empty pieces.\<close>

fun split_comma :: "string \<Rightarrow> string list" where
  "split_comma [] = [[]]"
| "split_comma (c # cs) =
     (if c = CHR '','' then [] # split_comma cs
      else (case split_comma cs of
              [] \<Rightarrow> [[c]]
            | p # ps \<Rightarrow> (c # p) # ps))"

text \<open>Python's \<^verbatim>\<open>str(n)\<close> for a non-negative integer.\<close>

definition digit_char :: "nat \<Rightarrow> char" where
  "digit_char d = char_of (48 + d)"

fun str_nat :: "nat \<Rightarrow> string" where
  "str_nat n = (if n < 10 then [digit_char n] else str_nat (n div 10) @ [digit_char (n mod 10)])"

declare str_nat.simps [simp del]

section \<open>Documents as lxml hands them out\<close>

text \<open>
  An element of the parsed tree: its tag, its attributes in source order and its child
  elements. Text nodes play no part in any query of the script and are left out.
\<close>

datatype element = Element (tag: string) (attribs: "(string \<times> string) list") (children: "element list")

text \<open>\<^verbatim>\<open>element.get(name)\<close>: the attribute's value, or nothing.\<close>

definition attr :: "element \<Rightarrow> string \<Rightarrow> string option" where
  "attr e k = map_of (attribs e) k"

text \<open>
  Every element of a document in document order, each with its ancestors (nearest first).
  The XPath queries below are filters over this list, so that a node set keeps the
  document order and holds every node once.
\<close>

fun walk :: "element list \<Rightarrow> element \<Rightarrow> (element list \<times> element) list" where
  "walk anc (Element t as cs) =
     (anc, Element t as cs) # concat (map (walk (Element t as cs # anc)) cs)"

definition opt_list :: "'a option \<Rightarrow> 'a list" where
  "opt_list x = (case x of None \<Rightarrow> [] | Some v \<Rightarrow> [v])"

text \<open>\<^verbatim>\<open>//a/@href\<close>\<close>

definition xpath_a_href :: "element \<Rightarrow> string list" where
  "xpath_a_href tree =
     concat (map (\<lambda>(anc, e). if tag e = ''a'' then opt_list (attr e ''href'') else [])
                 (walk [] tree))"

text \<open>The predicate \<^verbatim>\<open>form[@id='login_form']\<close>\<close>

definition is_login_form :: "element \<Rightarrow> bool" where
  "is_login_form e = (tag e = ''form'' \<and> attr e ''id'' = Some ''login_form'')"

text \<open>\<^verbatim>\<open>//form[@id='login_form']/@action\<close>\<close>

definition xpath_login_form_action :: "element \<Rightarrow> string list" where
  "xpath_login_form_action tree =
     concat (map (\<lambda>(anc, e). if is_login_form e then opt_list (attr e ''action'') else [])
                 (walk [] tree))"

text \<open>The predicate \<^verbatim>\<open>input[@type='hidden']\<close>\<close>

definition is_hidden_input :: "element \<Rightarrow> bool" where
  "is_hidden_input e = (tag e = ''input'' \<and> attr e ''type'' = Some ''hidden'')"

text \<open>\<^verbatim>\<open>//form[@id='login_form']//input[@type='hidden']\<close>\<close>

definition xpath_login_hidden_inputs :: "element \<Rightarrow> element list" where
  "xpath_login_hidden_inputs tree =
     map snd (filter (\<lambda>(anc, e). is_hidden_input e \<and> list_ex is_login_form anc) (walk [] tree))"

text \<open>
  \<^verbatim>\<open>id('topmenu')\<close>: the element registered under that identifier. In an HTML document
  libxml2 registers an element under the value of its \<^verbatim>\<open>id\<close> attribute, and an \<^verbatim>\<open>a\<close>
  element also under the value of its \<^verbatim>\<open>name\<close> attribute; the first registration in
  document order stays.
\<close>

definition has_id :: "string \<Rightarrow> element \<Rightarrow> bool" where
  "has_id i e = (attr e ''id'' = Some i \<or> (tag e = ''a'' \<and> attr e ''name'' = Some i))"

definition xpath_id :: "string \<Rightarrow> element \<Rightarrow> element option" where
  "xpath_id i tree = map_option snd (find (\<lambda>(anc, e). has_id i e) (walk [] tree))"

text \<open>\<^verbatim>\<open>id('topmenu')//a[contains(@href, s)]/@href\<close>: proper descendants of the container.\<close>

definition xpath_topmenu_href :: "string \<Rightarrow> element \<Rightarrow> string list" where
  "xpath_topmenu_href s tree =
     (case xpath_id ''topmenu'' tree of
        None \<Rightarrow> []
      | Some menu \<Rightarrow>
          concat (map (\<lambda>(anc, e). if tag e = ''a'' then filter (str_in s) (opt_list (attr e ''href'')) else [])
                      (tl (walk [] menu))))"

text \<open>The predicate \<^verbatim>\<open>select[@name='db_select[]']\<close>\<close>

definition is_db_select :: "element \<Rightarrow> bool" where
  "is_db_select e = (tag e = ''select'' \<and> attr e ''name'' = Some ''db_select[]'')"

text \<open>\<^verbatim>\<open>//select[@name='db_select[]']/option/@value\<close>: options that are children of the control.\<close>

definition xpath_db_select_options :: "element \<Rightarrow> string list" where
  "xpath_db_select_options tree =
     concat (map (\<lambda>(anc, e).
                    if tag e = ''option'' \<and> (case anc of [] \<Rightarrow> False | p # _ \<Rightarrow> is_db_select p)
                    then opt_list (attr e ''value'') else [])
                 (walk [] tree))"

text \<open>The predicate \<^verbatim>\<open>form[@name='dump']\<close>\<close>

definition is_dump_form :: "element \<Rightarrow> bool" where
  "is_dump_form e = (tag e = ''form'' \<and> attr e ''name'' = Some ''dump'')"

text \<open>\<^verbatim>\<open>//form[@name='dump']/@action\<close>\<close>

definition xpath_dump_form_action :: "element \<Rightarrow> string list" where
  "xpath_dump_form_action tree =
     concat (map (\<lambda>(anc, e). if is_dump_form e then opt_list (attr e ''action'') else [])
                 (walk [] tree))"

text \<open>\<^verbatim>\<open>//form[@name='dump']//input[@type='hidden']\<close>\<close>

definition xpath_dump_hidden_inputs :: "element \<Rightarrow> element list" where
  "xpath_dump_hidden_inputs tree =
     map snd (filter (\<lambda>(anc, e). is_hidden_input e \<and> list_ex is_dump_form anc) (walk [] tree))"

section \<open>The login check\<close>

definition target_substrings :: "string list" where
  "target_substrings = [''frame_content'', ''server_export.php'', ''index.php?route=/server/export'']"

text \<open>
  \<^verbatim>\<open>any(substring in href for substring, href in product(target_substrings, hrefs))\<close>
\<close>

definition is_login_successful :: "element \<Rightarrow> bool" where
  "is_login_successful tree =
     (let hrefs = xpath_a_href tree;
          combinations = List.product target_substrings hrefs
      in list_ex (\<lambda>(substring, href). str_in substring href) combinations)"

section \<open>The pattern for the download's file name\<close>

text \<open>
  \<^verbatim>\<open>CONTENT_DISPOSITION_FILENAME_RE = re.compile(r'^.*filename="(?P<filename>[^"]+)".*$')\<close>

  The matcher follows the backtracking search of \<^verbatim>\<open>re.match\<close>: the leading \<^verbatim>\<open>.*\<close>
  takes as many characters other than a newline as it can and gives them back one by
  one; at each position the rest of the pattern is tried. \<^verbatim>\<open>[^"]+\<close> has to run up to
  the next double quote, so the rest of the pattern matches in at most one way.
\<close>

definition filename_literal :: string where
  "filename_literal = ''filename='' @ [dquote]"

text \<open>
  \<^verbatim>\<open>.*$\<close> on the remaining input: no newline up to the end of the string, or up to
  a newline that is the string's last character.
\<close>

definition dot_star_dollar :: "string \<Rightarrow> bool" where
  "dot_star_dollar r =
     (newline \<notin> set r \<or> (r \<noteq> [] \<and> last r = newline \<and> newline \<notin> set (butlast r)))"

text \<open>\<^verbatim>\<open>filename="(?P<filename>[^"]+)".*$\<close> tried at the start of \<open>r\<close>; the group on success.\<close>

definition match_filename_at :: "string \<Rightarrow> string option" where
  "match_filename_at r =
     (if prefix filename_literal r then
        let r1 = drop (length filename_literal) r;
            fn = takeWhile (\<lambda>c. c \<noteq> dquote) r1;
            r2 = dropWhile (\<lambda>c. c \<noteq> dquote) r1
        in if fn \<noteq> [] \<and> r2 \<noteq> [] \<and> dot_star_dollar (tl r2) then Some fn else None
      else None)"

text \<open>The leading \<^verbatim>\<open>.*\<close> holding \<open>i\<close> characters, then \<open>i - 1\<close>, down to none.\<close>

fun re_backtrack :: "string \<Rightarrow> nat \<Rightarrow> string option" where
  "re_backtrack s 0 = match_filename_at s"
| "re_backtrack s (Suc i) =
     (case match_filename_at (drop (Suc i) s) of
        Some fn \<Rightarrow> Some fn
      | None \<Rightarrow> re_backtrack s i)"

text \<open>
  \<^verbatim>\<open>CONTENT_DISPOSITION_FILENAME_RE.match(s)\<close>: \<open>None\<close> when there is no match,
  otherwise \<^verbatim>\<open>re_match.group('filename')\<close>.
\<close>

definition CONTENT_DISPOSITION_FILENAME_RE_match :: "string \<Rightarrow> string option" where
  "CONTENT_DISPOSITION_FILENAME_RE_match s =
     re_backtrack s (length (takeWhile (\<lambda>c. c \<noteq> newline) s))"

text \<open>
  What the pattern says, read as a set of strings: \<open>s\<close> matches with the group \<open>fn\<close>
  starting after \<open>pre\<close>.
\<close>

definition re_parse :: "string \<Rightarrow> string \<Rightarrow> string \<Rightarrow> bool" where
  "re_parse s pre fn \<longleftrightarrow>
     (\<exists>post nl. s = pre @ filename_literal @ fn @ [dquote] @ post @ nl \<and>
        newline \<notin> set pre \<and> fn \<noteq> [] \<and> dquote \<notin> set fn \<and>
        newline \<notin> set post \<and> (nl = [] \<or> nl = [newline]))"

definition DEFAULT_PREFIX_FORMAT :: string where
  "DEFAULT_PREFIX_FORMAT = ''%Y-%m-%d--%H-%M-%S-UTC_''"

section \<open>Paths\<close>

text \<open>\<^verbatim>\<open>p.rfind(c)\<close>: the index of the last occurrence, \<open>-1\<close> when there is none.\<close>

definition rfind :: "char \<Rightarrow> string \<Rightarrow> int" where
  "rfind c p =
     (if c \<in> set p then int (length p) - 1 - int (length (takeWhile (\<lambda>x. x \<noteq> c) (rev p)))
      else - 1)"

text \<open>
  \<^verbatim>\<open>os.path.splitext\<close> on POSIX: the extension starts at the last dot of the last path
  component, unless only dots come before it in that component.
\<close>

definition splitext :: "string \<Rightarrow> string \<times> string" where
  "splitext p =
     (let sepIndex = rfind (CHR ''/'') p;
          dotIndex = rfind (CHR ''.'') p
      in if dotIndex > sepIndex \<and>
            list_ex (\<lambda>c. c \<noteq> CHR ''.'')
                    (take (nat (dotIndex - (sepIndex + 1))) (drop (nat (sepIndex + 1)) p))
         then (take (nat dotIndex) p, drop (nat dotIndex) p)
         else (p, []))"

text \<open>\<^verbatim>\<open>os.path.join(a, b)\<close> on POSIX.\<close>

definition path_join :: "string \<Rightarrow> string \<Rightarrow> string" where
  "path_join a b =
     (if prefix ''/'' b then b
      else if a = [] \<or> suffix ''/'' a then a @ b
      else a @ ''/'' @ b)"

text \<open>\<^verbatim>\<open>sep.join(xs)\<close>\<close>

fun str_join :: "string \<Rightarrow> string list \<Rightarrow> string" where
  "str_join sep [] = []"
| "str_join sep [x] = x"
| "str_join sep (x # y # ys) = x @ sep @ str_join sep (y # ys)"

section \<open>Form data\<close>

text \<open>
  A value of the dictionary passed as \<^verbatim>\<open>data=\<close>: a string, or the list of selected
  databases. The dictionary keeps its keys in insertion order, and an assignment to a
  key that is present replaces the value where it stands.
\<close>

datatype form_value = Str string | StrList "string list"

type_synonym form_data = "(string \<times> form_value) list"

fun dict_set :: "form_data \<Rightarrow> string \<Rightarrow> form_value \<Rightarrow> form_data" where
  "dict_set [] k v = [(k, v)]"
| "dict_set ((k', v') # d) k v = (if k' = k then (k, v) # d else (k', v') # dict_set d k v)"

text \<open>
  The loop over the hidden inputs of a form:
  \<^verbatim>\<open>name = hidden_input.get("name"); value = hidden_input.get("value", "");
  if name: form_data[name] = value\<close>
\<close>

fun add_hidden_inputs :: "form_data \<Rightarrow> element list \<Rightarrow> form_data" where
  "add_hidden_inputs form_data [] = form_data"
| "add_hidden_inputs form_data (hidden_input # rest) =
     (let name = attr hidden_input ''name'';
          val = (case attr hidden_input ''value'' of None \<Rightarrow> [] | Some v \<Rightarrow> v)
      in add_hidden_inputs
           (case name of
              None \<Rightarrow> form_data
            | Some n \<Rightarrow> if n \<noteq> [] then dict_set form_data n (Str val) else form_data)
           rest)"

section \<open>The world outside the script\<close>

datatype http_method = GET | POST

text \<open>
  A call of \<^verbatim>\<open>session.get\<close> or \<^verbatim>\<open>session.post\<close> with what the script passes to it.
  \<open>rq_auth\<close> is the \<^verbatim>\<open>auth\<close> setting in force for the call, the one of the call or
  else the one of the session; credentials that \<^verbatim>\<open>requests\<close> reads out of the URL itself
  are no part of it.
\<close>

record request =
  rq_method :: http_method
  rq_url :: string
  rq_data :: form_data
  rq_auth :: "(string \<times> string) option"
  rq_timeout :: int
  rq_stream :: bool

text \<open>
  A response as the script reads it: the status, the body as \<^verbatim>\<open>html.fromstring\<close>
  parses it (\<open>None\<close> when the parser raises, as it does on an empty body), the header
  dictionary (each name with the value \<^verbatim>\<open>headers.get\<close> finds for it), the chunks
  \<^verbatim>\<open>iter_content\<close> yields and, when the stream breaks after them, the message of the
  exception \<^verbatim>\<open>iter_content\<close> raises then.
\<close>

record response =
  status_code :: int
  content :: "element option"
  headers :: "(string \<times> string) list"
  iter_content :: "string list"
  stream_error :: "string option"

text \<open>
  \<open>server\<close> gives the outcome of a call of \<^verbatim>\<open>session.get\<close> or \<^verbatim>\<open>session.post\<close>, the
  last of the list, knowing every call made before it (cookies and the server's own
  session are functions of that history): \<open>Inr\<close> the response, \<open>Inl\<close> the message of the
  exception the call raises. The call may raise before anything is sent (a form value
  that cannot be encoded, a timeout that is not positive, a URL without scheme) or
  because no response arrives; either way the outcome is a function of the calls, and
  every such function is an \<open>env\<close>. \<^verbatim>\<open>urljoin\<close> and the clock with \<^verbatim>\<open>strftime\<close> are
  library functions taken as given. \<open>files\<close> lists the paths that are regular files,
  \<open>openable\<close> says whether \<^verbatim>\<open>open(path, 'wb')\<close> succeeds, and \<open>write_error\<close> gives the
  message of the error when \<^verbatim>\<open>f.write(chunk)\<close> fails on the file at that path holding
  the chunks written so far.
\<close>

record env =
  server :: "request list \<Rightarrow> string + response"
  urljoin :: "string \<Rightarrow> string \<Rightarrow> string"
  utcnow_strftime :: "string \<Rightarrow> string"
  files :: "string list"
  openable :: "string \<Rightarrow> bool"
  write_error :: "string \<Rightarrow> string list \<Rightarrow> string \<Rightarrow> string option"

text \<open>
  The exceptions that end a run, each with what its message shows. \<open>RequestError\<close>
  stands for any exception raised inside a call into \<^verbatim>\<open>requests\<close>; its class is not
  kept, since the script catches nothing and its caller prints the message only.
\<close>

datatype error =
    ValueError string
  | IndexError
  | RequestError string
  | ParserError
  | OSError string

text \<open>What a run leaves behind: the calls of the session with their outcomes, the lines on
  the error stream and the files written, each with the chunks it holds.\<close>

record state =
  exchanges :: "(request \<times> (string + response)) list"
  stderr :: "string list"
  written :: "(string \<times> string list) list"

definition initial_state :: state where
  "initial_state = \<lparr>exchanges = [], stderr = [], written = []\<rparr>"

text \<open>\<^verbatim>\<open>requests.Session()\<close>: a fresh session carries no credentials.\<close>

record session =
  session_auth :: "(string \<times> string) option"

definition Session :: session where
  "Session = \<lparr>session_auth = None\<rparr>"

text \<open>A request goes out with the session's credentials, since the script passes none
  of its own with any call.\<close>

definition session_request ::
    "env \<Rightarrow> session \<Rightarrow> request \<Rightarrow> state \<Rightarrow> (error + response) \<times> state" where
  "session_request e s rq st =
     (let rq' = rq\<lparr>rq_auth := session_auth s\<rparr>;
          reply = server e (map fst (exchanges st) @ [rq']);
          st' = st\<lparr>exchanges := exchanges st @ [(rq', reply)]\<rparr>
      in case reply of
           Inl msg \<Rightarrow> (Inl (RequestError msg), st')
         | Inr r \<Rightarrow> (Inr r, st'))"

definition session_get ::
    "env \<Rightarrow> session \<Rightarrow> string \<Rightarrow> int \<Rightarrow> state \<Rightarrow> (error + response) \<times> state" where
  "session_get e s u t =
     session_request e s
       \<lparr>rq_method = GET, rq_url = u, rq_data = [], rq_auth = None, rq_timeout = t,
        rq_stream = False\<rparr>"

definition session_post ::
    "env \<Rightarrow> session \<Rightarrow> string \<Rightarrow> form_data \<Rightarrow> int \<Rightarrow> bool \<Rightarrow> state \<Rightarrow> (error + response) \<times> state" where
  "session_post e s u d t str =
     session_request e s
       \<lparr>rq_method = POST, rq_url = u, rq_data = d, rq_auth = None, rq_timeout = t,
        rq_stream = str\<rparr>"

definition isfile :: "env \<Rightarrow> string \<Rightarrow> bool" where
  "isfile e p = (p \<in> set (files e))"

definition print_stderr :: "string \<Rightarrow> state \<Rightarrow> state" where
  "print_stderr line st = st\<lparr>stderr := stderr st @ [line]\<rparr>"

section \<open>The script\<close>

text \<open>The parameters of \<^verbatim>\<open>download_sql_backup\<close>; \<open>None\<close> is Python's \<^verbatim>\<open>None\<close>.\<close>

record args =
  url :: string
  user :: string
  password :: string
  dry_run :: bool
  overwrite_existing :: bool
  prepend_date :: bool
  basename :: "string option"
  output_directory :: string
  exclude_dbs :: "string option"
  compression :: string
  prefix_format :: "string option"
  timeout :: int
  http_auth :: "string option"
  server_name :: "string option"

text \<open>\<^verbatim>\<open>prefix_format = prefix_format or DEFAULT_PREFIX_FORMAT\<close>\<close>

definition prefix_format_or_default :: "args \<Rightarrow> string" where
  "prefix_format_or_default a =
     (case prefix_format a of
        None \<Rightarrow> DEFAULT_PREFIX_FORMAT
      | Some f \<Rightarrow> if f = [] then DEFAULT_PREFIX_FORMAT else f)"

text \<open>\<^verbatim>\<open>exclude_dbs = exclude_dbs.split(',') if exclude_dbs else []\<close>\<close>

definition exclude_dbs_list :: "args \<Rightarrow> string list" where
  "exclude_dbs_list a =
     (case exclude_dbs a of
        None \<Rightarrow> []
      | Some x \<Rightarrow> if x = [] then [] else split_comma x)"

subsection \<open>Login (lines 58 to 86)\<close>

text \<open>Lines 63 to 86: the login form of the page is filled in and sent.\<close>

definition submit_login :: "args \<Rightarrow> env \<Rightarrow> session \<Rightarrow> element \<Rightarrow> state \<Rightarrow> (error + element) \<times> state" where
  "submit_login a e session tree st1 =
     (let form_action = xpath_login_form_action tree;
          form_action = (case form_action of [] \<Rightarrow> url a | x # _ \<Rightarrow> x);
          form_data = [(''pma_username'', Str (user a)),
                       (''pma_password'', Str (password a))];
          hidden_inputs = xpath_login_hidden_inputs tree;
          form_data = add_hidden_inputs form_data hidden_inputs
      in
        (case session_post e session (urljoin e (url a) form_action) form_data
                (timeout a) False st1 of
           (Inl err, st2) \<Rightarrow> (Inl err, st2)
         | (Inr login_response, st2) \<Rightarrow>
             if status_code login_response \<noteq> 200
             then (Inl (ValueError ''Could not log in. Please check your credentials.''), st2)
             else
               (case content login_response of
                  None \<Rightarrow> (Inl ParserError, st2)
                | Some tree \<Rightarrow>
                    if \<not> is_login_successful tree
                    then (Inl (ValueError ''Could not log in. Please check your credentials.''), st2)
                    else (Inr tree, st2))))"

definition login :: "args \<Rightarrow> env \<Rightarrow> session \<Rightarrow> state \<Rightarrow> (error + element) \<times> state" where
  "login a e session st =
     (case session_get e session (url a) (timeout a) st of
        (Inl err, st1) \<Rightarrow> (Inl err, st1)
      | (Inr response, st1) \<Rightarrow>
          if status_code response \<noteq> 200
          then (Inl (ValueError ''Failed to load the login page.''), st1)
          else
            (case content response of
               None \<Rightarrow> (Inl ParserError, st1)
             | Some tree \<Rightarrow> submit_login a e session tree st1))"

subsection \<open>Extract export URL (lines 88 to 94)\<close>

definition extract_export_url :: "element \<Rightarrow> error + string" where
  "extract_export_url tree =
     (let export_url = xpath_topmenu_href ''server_export.php'' tree;
          export_url = (if export_url = []
                        then xpath_topmenu_href ''index.php?route=/server/export'' tree
                        else export_url)
      in case export_url of
           [] \<Rightarrow> Inl (ValueError ''Could not find export URL.'')
         | x # _ \<Rightarrow> Inr x)"

subsection \<open>Access export page (lines 96 to 98)\<close>

definition access_export_page ::
    "args \<Rightarrow> env \<Rightarrow> session \<Rightarrow> string \<Rightarrow> state \<Rightarrow> (error + element) \<times> state" where
  "access_export_page a e session export_url st =
     (case session_get e session (urljoin e (url a) export_url) (timeout a) st of
        (Inl err, st1) \<Rightarrow> (Inl err, st1)
      | (Inr export_response, st1) \<Rightarrow>
          (case content export_response of
             None \<Rightarrow> (Inl ParserError, st1)
           | Some export_tree \<Rightarrow> (Inr export_tree, st1)))"

subsection \<open>Determine databases to dump (lines 101 to 106)\<close>

definition no_databases_warning :: "string list \<Rightarrow> string" where
  "no_databases_warning dbs_available =
     ''Warning: no databases to dump (databases available: '' @ [dquote] @
     str_join '', '' dbs_available @ [dquote] @ '')''"

definition determine_databases :: "args \<Rightarrow> element \<Rightarrow> state \<Rightarrow> string list \<times> state" where
  "determine_databases a export_tree st =
     (let dbs_available = xpath_db_select_options export_tree;
          dbs_to_dump = filter (\<lambda>db_name. db_name \<notin> set (exclude_dbs_list a)) dbs_available
      in if dbs_to_dump = []
         then (dbs_to_dump, print_stderr (no_databases_warning dbs_available) st)
         else (dbs_to_dump, st))"

subsection \<open>Prepare form data (lines 108 to 120)\<close>

definition prepare_form_data ::
    "args \<Rightarrow> string list \<Rightarrow> element \<Rightarrow> error + (string \<times> form_data)" where
  "prepare_form_data a dbs_to_dump export_tree =
     (case xpath_dump_form_action export_tree of
        [] \<Rightarrow> Inl IndexError
      | dump_form_action # _ \<Rightarrow>
          let form_data = [(''db_select[]'', StrList dbs_to_dump)];
              form_data = dict_set form_data ''compression'' (Str (compression a));
              form_data = dict_set form_data ''what'' (Str ''sql'');
              form_data = dict_set form_data ''filename_template'' (Str ''@SERVER@'');
              form_data = dict_set form_data ''sql_structure_or_data'' (Str ''structure_and_data'');
              dump_hidden_inputs = xpath_dump_hidden_inputs export_tree;
              form_data = add_hidden_inputs form_data dump_hidden_inputs
          in Inr (dump_form_action, form_data))"

subsection \<open>Submit form and download file (lines 122 to 145)\<close>

definition filename_error :: "string \<Rightarrow> error" where
  "filename_error content_disposition =
     ValueError (''Could not determine SQL backup filename from '' @ content_disposition)"

text \<open>\<^verbatim>\<open>file_response.headers.get('Content-Disposition', '')\<close> and the match.\<close>

definition content_disposition_of :: "response \<Rightarrow> string" where
  "content_disposition_of file_response =
     (case map_of (headers file_response) ''Content-Disposition'' of
        None \<Rightarrow> []
      | Some v \<Rightarrow> v)"

definition content_filename_of :: "response \<Rightarrow> error + string" where
  "content_filename_of file_response =
     (let content_disposition = content_disposition_of file_response;
          re_match = CONTENT_DISPOSITION_FILENAME_RE_match content_disposition
      in case re_match of
           None \<Rightarrow> Inl (filename_error content_disposition)
         | Some filename \<Rightarrow> Inr filename)"

text \<open>\<^verbatim>\<open>f'{basename}_({n}){ext}'\<close>\<close>

definition alternate_out_filename :: "string \<Rightarrow> string \<Rightarrow> nat \<Rightarrow> string" where
  "alternate_out_filename base ext n = base @ ''_('' @ str_nat n @ '')'' @ ext"

lemma less_power_length_str_nat: "n < 10 ^ length (str_nat n)"
proof (induction n rule: str_nat.induct)
  case (1 n)
  show ?case
  proof (cases "n < 10")
    case True
    then show ?thesis by (simp add: str_nat.simps [of n])
  next
    case False
    with "1" have "n div 10 < 10 ^ length (str_nat (n div 10))" by simp
    then have "n < 10 * 10 ^ length (str_nat (n div 10))" by arith
    with False show ?thesis by (simp add: str_nat.simps [of n])
  qed
qed

lemma alternate_in_files_bound:
  assumes "alternate_out_filename base ext n \<in> set fs"
  shows "n < 10 ^ sum_list (map length fs)"
proof -
  have "length (alternate_out_filename base ext n) \<le> sum_list (map length fs)"
    using assms by (simp add: member_le_sum_list)
  then have "length (str_nat n) \<le> sum_list (map length fs)"
    by (simp add: alternate_out_filename_def)
  then have "(10::nat) ^ length (str_nat n) \<le> 10 ^ sum_list (map length fs)"
    by (simp add: power_increasing)
  with less_power_length_str_nat [of n] show ?thesis by linarith
qed

text \<open>
  The loop \<^verbatim>\<open>while True\<close> of lines 140 to 145, entered with \<open>n\<close>; \<open>fs\<close> are the
  regular files. It ends because the candidate names grow beyond every name in \<open>fs\<close>.
\<close>

function find_alternate :: "string list \<Rightarrow> string \<Rightarrow> string \<Rightarrow> nat \<Rightarrow> string" where
  "find_alternate fs base ext n =
     (if alternate_out_filename base ext n \<notin> set fs
      then alternate_out_filename base ext n
      else find_alternate fs base ext (n + 1))"
  by pat_completeness auto
termination
proof (relation "measure (\<lambda>(fs, base, ext, n). 10 ^ sum_list (map length fs) - n)")
  show "wf (measure (\<lambda>(fs, base, ext, n). 10 ^ sum_list (map length fs) - n))" by simp
next
  fix fs :: "string list" and base ext :: string and n :: nat
  assume "\<not> alternate_out_filename base ext n \<notin> set fs"
  then have "n < 10 ^ sum_list (map length fs)"
    using alternate_in_files_bound by blast
  then show "((fs, base, ext, n + 1), (fs, base, ext, n))
        \<in> measure (\<lambda>(fs, base, ext, n). 10 ^ sum_list (map length fs) - n)"
    by simp
qed

declare find_alternate.simps [simp del]

definition already_exists_message :: "string \<Rightarrow> string" where
  "already_exists_message out_filename =
     ''File '' @ out_filename @ '' already exists, to overwrite it use --overwrite-existing''"

text \<open>Lines 129 to 134: the path the download gets when nothing is in its way.\<close>

definition plain_out_filename :: "args \<Rightarrow> env \<Rightarrow> string \<Rightarrow> string" where
  "plain_out_filename a e content_filename =
     (let filename = (case basename a of
                        None \<Rightarrow> content_filename
                      | Some b \<Rightarrow> b @ snd (splitext content_filename));
          filename = (if prepend_date a
                      then utcnow_strftime e (prefix_format_or_default a) @ filename
                      else filename);
          out_filename = path_join (output_directory a) filename
      in out_filename)"

text \<open>Lines 129 to 145: the path under which the download is stored.\<close>

definition resolve_filename :: "args \<Rightarrow> env \<Rightarrow> string \<Rightarrow> state \<Rightarrow> string \<times> state" where
  "resolve_filename a e content_filename st =
     (let out_filename = plain_out_filename a e content_filename
      in if isfile e out_filename \<and> \<not> overwrite_existing a
         then
           (let (base, ext) = splitext out_filename;
                st1 = print_stderr (already_exists_message out_filename) st
            in (find_alternate (files e) base ext 1, st1))
         else (out_filename, st))"

subsection \<open>Save file if not dry run (lines 147 to 153)\<close>

text \<open>
  The loop of lines 150 and 151 over the chunks that arrive: each is written in turn, and
  a write that fails ends the loop with the chunks written before it.
\<close>

fun write_chunks :: "env \<Rightarrow> string \<Rightarrow> string list \<Rightarrow> string list \<Rightarrow> error option \<times> string list" where
  "write_chunks e path sofar [] = (None, sofar)"
| "write_chunks e path sofar (chunk # rest) =
     (case write_error e path sofar chunk of
        Some msg \<Rightarrow> (Some (OSError msg), sofar)
      | None \<Rightarrow> write_chunks e path (sofar @ [chunk]) rest)"

text \<open>
  The \<^verbatim>\<open>with\<close> block closes the file on every way out and deletes nothing: a failed
  write, or a stream that breaks after its last chunk, leaves the file with what was
  written and ends the run with that error.
\<close>

definition save_file ::
    "args \<Rightarrow> env \<Rightarrow> response \<Rightarrow> string \<Rightarrow> state \<Rightarrow> (error + string) \<times> state" where
  "save_file a e file_response out_filename st =
     (if \<not> dry_run a
      then
        (if openable e out_filename
         then
           (case write_chunks e out_filename [] (iter_content file_response) of
              (Some err, sofar) \<Rightarrow>
                (Inl err, st\<lparr>written := written st @ [(out_filename, sofar)]\<rparr>)
            | (None, sofar) \<Rightarrow>
                (case stream_error file_response of
                   Some msg \<Rightarrow>
                     (Inl (RequestError msg), st\<lparr>written := written st @ [(out_filename, sofar)]\<rparr>)
                 | None \<Rightarrow>
                     (Inr out_filename, st\<lparr>written := written st @ [(out_filename, sofar)]\<rparr>)))
         else (Inl (OSError out_filename), st))
      else (Inr out_filename, st))"

text \<open>Lines 124 to 153: what happens to the response to the export request.\<close>

definition store_download :: "args \<Rightarrow> env \<Rightarrow> response \<Rightarrow> state \<Rightarrow> (error + string) \<times> state" where
  "store_download a e file_response st =
     (case content_filename_of file_response of
        Inl err \<Rightarrow> (Inl err, st)
      | Inr content_filename \<Rightarrow>
          (case resolve_filename a e content_filename st of
             (out_filename, st1) \<Rightarrow> save_file a e file_response out_filename st1))"

subsection \<open>The whole run\<close>

definition export_and_store ::
    "args \<Rightarrow> env \<Rightarrow> session \<Rightarrow> element \<Rightarrow> state \<Rightarrow> (error + string) \<times> state" where
  "export_and_store a e session export_tree st =
     (case determine_databases a export_tree st of
        (dbs_to_dump, st1) \<Rightarrow>
          (case prepare_form_data a dbs_to_dump export_tree of
             Inl err \<Rightarrow> (Inl err, st1)
           | Inr (dump_form_action, form_data) \<Rightarrow>
               (case session_post e session (urljoin e (url a) dump_form_action) form_data
                       (timeout a) True st1 of
                  (Inl err, st2) \<Rightarrow> (Inl err, st2)
                | (Inr file_response, st2) \<Rightarrow> store_download a e file_response st2)))"

definition download_sql_backup :: "args \<Rightarrow> env \<Rightarrow> (error + string) \<times> state" where
  "download_sql_backup a e =
     (let session = Session
      in case login a e session initial_state of
           (Inl err, st1) \<Rightarrow> (Inl err, st1)
         | (Inr tree, st1) \<Rightarrow>
             (case extract_export_url tree of
                Inl err \<Rightarrow> (Inl err, st1)
              | Inr export_url \<Rightarrow>
                  (case access_export_page a e session export_url st1 of
                     (Inl err, st2) \<Rightarrow> (Inl err, st2)
                   | (Inr export_tree, st2) \<Rightarrow> export_and_store a e session export_tree st2)))"

text \<open>Two states that show the same to an onlooker who does not see the requests.\<close>

definition same_view :: "state \<Rightarrow> state \<Rightarrow> bool" where
  "same_view st1 st2 \<longleftrightarrow>
     map snd (exchanges st1) = map snd (exchanges st2) \<and>
     stderr st1 = stderr st2 \<and> written st1 = written st2"

section \<open>A sample console\<close>

text \<open>Pages and replies of a small console, used to run the script on concrete inputs.\<close>

definition sample_login_page :: element where
  "sample_login_page =
     Element ''html'' []
       [Element ''body'' []
          [Element ''form'' [(''id'', ''login_form''), (''action'', ''index.php?route=/'')]
             [Element ''input'' [(''type'', ''hidden''), (''name'', ''token''), (''value'', ''5a3f'')] [],
              Element ''input'' [(''type'', ''text''), (''name'', ''pma_username'')] [],
              Element ''input'' [(''type'', ''password''), (''name'', ''pma_password'')] []]]]"

definition sample_formless_page :: element where
  "sample_formless_page = Element ''html'' [] [Element ''body'' [] [Element ''p'' [] []]]"

definition sample_home_page :: element where
  "sample_home_page =
     Element ''html'' []
       [Element ''body'' []
          [Element ''div'' [(''id'', ''topmenu'')]
             [Element ''a'' [(''href'', ''index.php?route=/server/databases'')] [],
              Element ''a'' [(''href'', ''index.php?route=/server/export'')] []]]]"

definition sample_export_page :: "element list \<Rightarrow> element" where
  "sample_export_page extra_inputs =
     Element ''html'' []
       [Element ''body'' []
          [Element ''form'' [(''name'', ''dump''), (''action'', ''index.php?route=/export'')]
             ([Element ''input'' [(''type'', ''hidden''), (''name'', ''token''), (''value'', ''5a3f'')] [],
               Element ''select'' [(''name'', ''db_select[]'')]
                 [Element ''option'' [(''value'', ''shop'')] [],
                  Element ''option'' [(''value'', ''logs'')] []]] @ extra_inputs)]]"

definition sample_page_response :: "int \<Rightarrow> element \<Rightarrow> response" where
  "sample_page_response status page =
     \<lparr>status_code = status, content = Some page, headers = [], iter_content = [],
      stream_error = None\<rparr>"

definition sample_download :: "(string \<times> string) list \<Rightarrow> response" where
  "sample_download hs =
     \<lparr>status_code = 200, content = None, headers = hs,
      iter_content = [''-- dump'', ''CREATE TABLE t (i INT);''], stream_error = None\<rparr>"

definition sample_disposition :: string where
  "sample_disposition = ''attachment; filename='' @ [dquote] @ ''shop_logs.sql'' @ [dquote]"

text \<open>The console answers the first four requests of a session in turn.\<close>

definition sample_server ::
    "element \<Rightarrow> int \<Rightarrow> element \<Rightarrow> (string \<times> string) list \<Rightarrow> request list \<Rightarrow> string + response" where
  "sample_server login_page export_status export_page download_headers history =
     (if length history = 1 then Inr (sample_page_response 200 login_page)
      else if length history = 2 then Inr (sample_page_response 200 sample_home_page)
      else if length history = 3 then Inr (sample_page_response export_status export_page)
      else if length history = 4 then Inr (sample_download download_headers)
      else Inl ''connection refused'')"

definition sample_env :: "(request list \<Rightarrow> string + response) \<Rightarrow> string list \<Rightarrow> env" where
  "sample_env srv fs =
     \<lparr>server = srv,
      urljoin = (\<lambda>base ref. if prefix ''http://'' ref then ref else ''http://db.example/'' @ ref),
      utcnow_strftime = (\<lambda>fmt. ''2024-12-01--13-05-09-UTC_''),
      files = fs,
      openable = (\<lambda>path. True),
      write_error = (\<lambda>path sofar chunk. None)\<rparr>"

text \<open>A console that repeats the posted password in a header of the download.\<close>

definition posted_password :: "request \<Rightarrow> string" where
  "posted_password rq =
     (case map_of (rq_data rq) ''pma_password'' of
        Some (Str v) \<Rightarrow> v
      | _ \<Rightarrow> [])"

definition reflecting_server :: "request list \<Rightarrow> string + response" where
  "reflecting_server history =
     (if length history = 4
      then Inr (sample_download
                  [(''Content-Disposition'', ''attachment; name='' @ posted_password (history ! 1))])
      else sample_server sample_login_page 200 (sample_export_page []) [] history)"

text \<open>
  A session whose login request raises before anything is sent when the password holds
  the byte \<open>0xFF\<close>, which is no text: the message gives the place of the byte, as the
  one of the encoding error does.
\<close>

definition encoding_server :: "request list \<Rightarrow> string + response" where
  "encoding_server history =
     (if length history = 2 \<and> CHR 0xFF \<in> set (posted_password (history ! 1))
      then Inl (''utf-8 codec cannot encode character in position '' @
                str_nat (length (takeWhile (\<lambda>c. c \<noteq> CHR 0xFF) (posted_password (history ! 1)))))
      else sample_server sample_login_page 200 (sample_export_page []) [] history)"

definition sample_args :: args where
  "sample_args =
     \<lparr>url = ''http://db.example/index.php'', user = ''backup'', password = ''hunter2'',
      dry_run = False, overwrite_existing = False, prepend_date = False, basename = None,
      output_directory = ''/var/backups'', exclude_dbs = None, compression = ''none'',
      prefix_format = None, timeout = 60, http_auth = None, server_name = None\<rparr>"

section \<open>Properties of the login check\<close>

lemma str_in_iff: "str_in s h \<longleftrightarrow> (\<exists>pre post. h = pre @ s @ post)"
proof (induction h)
  case Nil
  then show ?case by auto
next
  case (Cons c cs)
  show ?case
  proof
    assume "str_in s (c # cs)"
    then consider "prefix s (c # cs)" | "str_in s cs" by auto
    then show "\<exists>pre post. c # cs = pre @ s @ post"
    proof cases
      case 1
      then obtain post where "c # cs = s @ post" by (auto simp: prefix_def)
      then have "c # cs = [] @ s @ post" by simp
      then show ?thesis by blast
    next
      case 2
      with Cons.IH obtain pre post where "cs = pre @ s @ post" by blast
      then have "c # cs = (c # pre) @ s @ post" by simp
      then show ?thesis by blast
    qed
  next
    assume "\<exists>pre post. c # cs = pre @ s @ post"
    then obtain pre post where eq: "c # cs = pre @ s @ post" by blast
    show "str_in s (c # cs)"
    proof (cases pre)
      case Nil
      with eq have "prefix s (c # cs)" by (simp add: prefix_def)
      then show ?thesis by simp
    next
      case (Cons p ps)
      with eq have "cs = ps @ s @ post" by simp
      with Cons.IH have "str_in s cs" by blast
      then show ?thesis by simp
    qed
  qed
qed

text \<open>
  C7: the login check holds exactly when some \<^verbatim>\<open>href\<close> of an anchor of the document
  contains one of the three marker substrings.
\<close>

theorem is_login_successful_iff:
  "is_login_successful tree \<longleftrightarrow>
     (\<exists>href \<in> set (xpath_a_href tree).
        \<exists>marker \<in> {''frame_content'', ''server_export.php'', ''index.php?route=/server/export''}.
          \<exists>pre post. href = pre @ marker @ post)"
proof -
  have markers: "set target_substrings =
      {''frame_content'', ''server_export.php'', ''index.php?route=/server/export''}"
    unfolding target_substrings_def by (simp only: list.set)
  have "is_login_successful tree \<longleftrightarrow>
      (\<exists>marker \<in> set target_substrings. \<exists>href \<in> set (xpath_a_href tree). str_in marker href)"
    unfolding is_login_successful_def Let_def list_ex_iff by (simp only: set_product) blast
  also have "\<dots> \<longleftrightarrow> (\<exists>href \<in> set (xpath_a_href tree). \<exists>marker \<in> set target_substrings.
      \<exists>pre post. href = pre @ marker @ post)"
    unfolding str_in_iff by blast
  finally show ?thesis unfolding markers .
qed

theorem is_login_successful_iff_witness:
  "is_login_successful
     (Element ''html'' []
        [Element ''a'' [(''href'', ''index.php?route=/server/export&lang=en'')] []]) \<and>
   \<not> is_login_successful (Element ''html'' [] [Element ''a'' [(''href'', ''index.php'')] []])"
proof -
  let ?yes = "Element ''html'' []
        [Element ''a'' [(''href'', ''index.php?route=/server/export&lang=en'')] []]"
  let ?no = "Element ''html'' [] [Element ''a'' [(''href'', ''index.php'')] []]"
  have href_yes: "xpath_a_href ?yes = [''index.php?route=/server/export&lang=en'']"
    by (simp add: xpath_a_href_def attr_def opt_list_def)
  have "''index.php?route=/server/export&lang=en'' =
      [] @ ''index.php?route=/server/export'' @ ''&lang=en''" by simp
  then have yes: "is_login_successful ?yes"
    unfolding is_login_successful_iff [of ?yes] href_yes by (simp only: list.set) blast
  have href_no: "xpath_a_href ?no = [''index.php'']"
    by (simp add: xpath_a_href_def attr_def opt_list_def)
  have "\<not> (\<exists>pre post. ''index.php'' = pre @ m @ post)"
    if "m \<in> {''frame_content'', ''server_export.php'', ''index.php?route=/server/export''}" for m
  proof
    assume "\<exists>pre post. ''index.php'' = pre @ m @ post"
    then obtain pre post where "''index.php'' = pre @ m @ post" by blast
    then have "length ''index.php'' = length pre + length m + length post"
      by (metis length_append add.assoc)
    with that show False by auto
  qed
  then have no: "\<not> is_login_successful ?no"
    unfolding is_login_successful_iff [of ?no] href_no by (simp only: list.set) blast
  from yes no show ?thesis ..
qed

section \<open>Properties of the form data\<close>

lemma map_of_dict_set: "map_of (dict_set d k v) = (map_of d)(k \<mapsto> v)"
  by (induction d k v rule: dict_set.induct) auto

lemma add_hidden_inputs_snoc:
  "add_hidden_inputs d (hs @ [h]) =
     (case attr h ''name'' of
        None \<Rightarrow> add_hidden_inputs d hs
      | Some n \<Rightarrow>
          if n \<noteq> []
          then dict_set (add_hidden_inputs d hs) n
                 (Str (case attr h ''value'' of None \<Rightarrow> [] | Some v \<Rightarrow> v))
          else add_hidden_inputs d hs)"
  by (induction hs arbitrary: d) (simp_all add: Let_def split: option.splits)

lemma map_of_add_hidden_inputs:
  "map_of (add_hidden_inputs d hs) n =
     (if n = [] then map_of d n
      else case find (\<lambda>h. attr h ''name'' = Some n) (rev hs) of
             None \<Rightarrow> map_of d n
           | Some h \<Rightarrow> Some (Str (case attr h ''value'' of None \<Rightarrow> [] | Some v \<Rightarrow> v)))"
proof (induction hs rule: rev_induct)
  case Nil
  then show ?case by simp
next
  case (snoc h hs)
  show ?case
  proof (cases "attr h ''name''")
    case None
    with snoc show ?thesis by (simp add: add_hidden_inputs_snoc)
  next
    case (Some m)
    with snoc show ?thesis
      by (auto simp: add_hidden_inputs_snoc map_of_dict_set)
  qed
qed

text \<open>
  C10: a hidden input of the export form named like one of the fixed parameters decides
  the value submitted under that name; the last such input counts.
\<close>

theorem hidden_fields_take_precedence:
  assumes "prepare_form_data a dbs_to_dump export_tree = Inr (dump_form_action, form_data)"
    and "n \<in> {''db_select[]'', ''compression'', ''what'', ''filename_template'',
               ''sql_structure_or_data''}"
    and "find (\<lambda>h. attr h ''name'' = Some n) (rev (xpath_dump_hidden_inputs export_tree)) = Some h"
  shows "map_of form_data n = Some (Str (case attr h ''value'' of None \<Rightarrow> [] | Some v \<Rightarrow> v))"
proof -
  from assms(2) have "n \<noteq> []" by auto
  moreover from assms(1) obtain d where
    "form_data = add_hidden_inputs d (xpath_dump_hidden_inputs export_tree)"
    by (auto simp: prepare_form_data_def Let_def split: list.splits)
  ultimately show ?thesis using assms(3) by (simp add: map_of_add_hidden_inputs)
qed

theorem hidden_fields_take_precedence_witness:
  "prepare_form_data sample_args [''shop'', ''logs'']
       (sample_export_page
          [Element ''input'' [(''type'', ''hidden''), (''name'', ''compression''), (''value'', ''gzip'')] []])
     = Inr (''index.php?route=/export'',
            [(''db_select[]'', StrList [''shop'', ''logs'']), (''compression'', Str ''gzip''),
             (''what'', Str ''sql''), (''filename_template'', Str ''@SERVER@''),
             (''sql_structure_or_data'', Str ''structure_and_data''), (''token'', Str ''5a3f'')]) \<and>
   compression sample_args = ''none'' \<and>
   map_of [(''db_select[]'', StrList [''shop'', ''logs'']), (''compression'', Str ''gzip''),
           (''what'', Str ''sql''), (''filename_template'', Str ''@SERVER@''),
           (''sql_structure_or_data'', Str ''structure_and_data''), (''token'', Str ''5a3f'')]
     ''compression'' = Some (Str ''gzip'')"
proof -
  let ?h = "Element ''input'' [(''type'', ''hidden''), (''name'', ''compression''), (''value'', ''gzip'')] []"
  let ?page = "sample_export_page [?h]"
  let ?fd = "[(''db_select[]'', StrList [''shop'', ''logs'']), (''compression'', Str ''gzip''),
             (''what'', Str ''sql''), (''filename_template'', Str ''@SERVER@''),
             (''sql_structure_or_data'', Str ''structure_and_data''), (''token'', Str ''5a3f'')]"
  have pf: "prepare_form_data sample_args [''shop'', ''logs''] ?page
      = Inr (''index.php?route=/export'', ?fd)"
    by code_simp
  have last_h: "find (\<lambda>h. attr h ''name'' = Some ''compression'')
      (rev (xpath_dump_hidden_inputs ?page)) = Some ?h"
    by code_simp
  have "attr ?h ''value'' = Some ''gzip''" by code_simp
  then have "map_of ?fd ''compression'' = Some (Str ''gzip'')"
    using hidden_fields_take_precedence [OF pf _ last_h] by simp
  moreover have "compression sample_args = ''none''" by code_simp
  ultimately show ?thesis using pf by simp
qed

section \<open>The database selection\<close>

lemma resolve_filename_exchanges:
  "exchanges (snd (resolve_filename a e fn st)) = exchanges st"
  by (simp add: resolve_filename_def Let_def print_stderr_def split: prod.splits)


lemma save_file_exchanges:
  "exchanges (snd (save_file a e r out st)) = exchanges st"
  by (simp add: save_file_def split: prod.splits option.splits)


lemma store_download_exchanges:
  "exchanges (snd (store_download a e r st)) = exchanges st"
proof (cases "content_filename_of r")
  case (Inl err)
  then show ?thesis by (simp add: store_download_def)
next
  case (Inr fn)
  obtain out st1 where res: "resolve_filename a e fn st = (out, st1)" by force
  then have "exchanges st1 = exchanges st"
    using resolve_filename_exchanges [of a e fn st] by simp
  with Inr res show ?thesis by (simp add: store_download_def save_file_exchanges)
qed






section \<open>Properties of the file name pattern\<close>

lemma dot_star_dollar_iff:
  "dot_star_dollar r \<longleftrightarrow>
     (\<exists>post nl. r = post @ nl \<and> newline \<notin> set post \<and> (nl = [] \<or> nl = [newline]))"
proof
  assume "dot_star_dollar r"
  then consider "newline \<notin> set r"
    | "r \<noteq> []" "last r = newline" "newline \<notin> set (butlast r)"
    by (auto simp: dot_star_dollar_def)
  then show "\<exists>post nl. r = post @ nl \<and> newline \<notin> set post \<and> (nl = [] \<or> nl = [newline])"
  proof cases
    case 1
    then have "r = r @ [] \<and> newline \<notin> set r" by simp
    then show ?thesis by blast
  next
    case 2
    then have "r = butlast r @ [newline]" by (metis append_butlast_last_id)
    with 2 show ?thesis by blast
  qed
next
  assume "\<exists>post nl. r = post @ nl \<and> newline \<notin> set post \<and> (nl = [] \<or> nl = [newline])"
  then obtain post nl where "r = post @ nl" "newline \<notin> set post" "nl = [] \<or> nl = [newline]"
    by blast
  then show "dot_star_dollar r" by (auto simp: dot_star_dollar_def)
qed

lemma match_filename_at_iff:
  "match_filename_at r = Some fn \<longleftrightarrow>
     (\<exists>post nl. r = filename_literal @ fn @ [dquote] @ post @ nl \<and> fn \<noteq> [] \<and>
        dquote \<notin> set fn \<and> newline \<notin> set post \<and> (nl = [] \<or> nl = [newline]))"
proof
  assume m: "match_filename_at r = Some fn"
  have "prefix filename_literal r"
  proof (rule ccontr)
    assume "\<not> prefix filename_literal r"
    with m show False by (simp add: match_filename_at_def)
  qed
  then obtain r1 where r: "r = filename_literal @ r1" by (auto simp: prefix_def)
  define r2 where "r2 = dropWhile (\<lambda>c. c \<noteq> dquote) r1"
  define t where "t = takeWhile (\<lambda>c. c \<noteq> dquote) r1"
  have "match_filename_at (filename_literal @ r1) =
      (if t \<noteq> [] \<and> r2 \<noteq> [] \<and> dot_star_dollar (tl r2) then Some t else None)"
    by (simp add: match_filename_at_def Let_def t_def r2_def)
  with m have cond: "(if t \<noteq> [] \<and> r2 \<noteq> [] \<and> dot_star_dollar (tl r2) then Some t else None) = Some fn"
    unfolding r by simp
  then have all: "t \<noteq> [] \<and> r2 \<noteq> [] \<and> dot_star_dollar (tl r2)"
    by (meson option.distinct(1))
  with cond have fn: "t = fn" by simp
  have split: "r1 = t @ r2" by (simp add: t_def r2_def)
  from all have "dropWhile (\<lambda>c. c \<noteq> dquote) r1 \<noteq> []" by (simp add: r2_def)
  then have "\<not> hd (dropWhile (\<lambda>c. c \<noteq> dquote) r1) \<noteq> dquote" by (rule hd_dropWhile)
  then have "hd r2 = dquote" by (simp add: r2_def)
  with all have r2: "r2 = dquote # tl r2" by (cases r2) simp_all
  from all obtain post nl where tl: "tl r2 = post @ nl" and post: "newline \<notin> set post"
    and nl: "nl = [] \<or> nl = [newline]"
    unfolding dot_star_dollar_iff by blast
  have nq: "dquote \<notin> set t" unfolding t_def by (auto dest: set_takeWhileD)
  have "r2 = [dquote] @ post @ nl" using r2 tl by simp
  with split have "r1 = t @ [dquote] @ post @ nl" by simp
  with fn all nq post nl have "r = filename_literal @ fn @ [dquote] @ post @ nl \<and> fn \<noteq> [] \<and>
      dquote \<notin> set fn \<and> newline \<notin> set post \<and> (nl = [] \<or> nl = [newline])"
    unfolding r by blast
  then show "\<exists>post nl. r = filename_literal @ fn @ [dquote] @ post @ nl \<and> fn \<noteq> [] \<and>
      dquote \<notin> set fn \<and> newline \<notin> set post \<and> (nl = [] \<or> nl = [newline])"
    by blast
next
  assume "\<exists>post nl. r = filename_literal @ fn @ [dquote] @ post @ nl \<and> fn \<noteq> [] \<and>
      dquote \<notin> set fn \<and> newline \<notin> set post \<and> (nl = [] \<or> nl = [newline])"
  then obtain post nl where r: "r = filename_literal @ fn @ [dquote] @ post @ nl"
    and "fn \<noteq> []" and nq: "dquote \<notin> set fn" and "newline \<notin> set post"
    and "nl = [] \<or> nl = [newline]"
    by blast
  have pre: "prefix filename_literal r" unfolding r by simp
  have r1: "drop (length filename_literal) r = fn @ dquote # post @ nl" unfolding r by simp
  from nq have "takeWhile (\<lambda>c. c \<noteq> dquote) (fn @ dquote # post @ nl) =
      fn @ takeWhile (\<lambda>c. c \<noteq> dquote) (dquote # post @ nl)"
    by (intro takeWhile_append2) auto
  then have tw: "takeWhile (\<lambda>c. c \<noteq> dquote) (fn @ dquote # post @ nl) = fn" by simp
  from nq have "dropWhile (\<lambda>c. c \<noteq> dquote) (fn @ dquote # post @ nl) =
      dropWhile (\<lambda>c. c \<noteq> dquote) (dquote # post @ nl)"
    by (intro dropWhile_append2) auto
  then have dw: "dropWhile (\<lambda>c. c \<noteq> dquote) (fn @ dquote # post @ nl) = dquote # post @ nl"
    by simp
  have "dot_star_dollar (post @ nl)"
    unfolding dot_star_dollar_iff using \<open>newline \<notin> set post\<close> \<open>nl = [] \<or> nl = [newline]\<close> by blast
  with pre \<open>fn \<noteq> []\<close> show "match_filename_at r = Some fn"
    by (simp add: match_filename_at_def Let_def r1 tw dw)
qed

lemma re_backtrack_None:
  "re_backtrack s i = None \<longleftrightarrow> (\<forall>j\<le>i. match_filename_at (drop j s) = None)"
proof (induction i)
  case 0
  then show ?case by simp
next
  case (Suc i)
  show ?case
  proof (cases "match_filename_at (drop (Suc i) s)")
    case None
    with Suc show ?thesis by (auto simp: le_Suc_eq)
  next
    case (Some fn)
    then show ?thesis by auto
  qed
qed

lemma re_backtrack_Some:
  "re_backtrack s i = Some fn \<longleftrightarrow>
     (\<exists>j\<le>i. match_filename_at (drop j s) = Some fn \<and>
        (\<forall>k. j < k \<and> k \<le> i \<longrightarrow> match_filename_at (drop k s) = None))"
proof (induction i)
  case 0
  then show ?case by simp
next
  case (Suc i)
  show ?case
  proof (cases "match_filename_at (drop (Suc i) s)")
    case None
    have "(\<exists>j\<le>Suc i. match_filename_at (drop j s) = Some fn \<and>
        (\<forall>k. j < k \<and> k \<le> Suc i \<longrightarrow> match_filename_at (drop k s) = None)) \<longleftrightarrow>
      (\<exists>j\<le>i. match_filename_at (drop j s) = Some fn \<and>
        (\<forall>k. j < k \<and> k \<le> i \<longrightarrow> match_filename_at (drop k s) = None))"
      (is "?L \<longleftrightarrow> ?R")
    proof
      assume ?L
      then obtain j where j: "j \<le> Suc i" "match_filename_at (drop j s) = Some fn"
        "\<forall>k. j < k \<and> k \<le> Suc i \<longrightarrow> match_filename_at (drop k s) = None" by blast
      with None have "j \<noteq> Suc i" by auto
      with j have "j \<le> i" by simp
      with j show ?R by auto
    next
      assume ?R
      then obtain j where j: "j \<le> i" "match_filename_at (drop j s) = Some fn"
        "\<forall>k. j < k \<and> k \<le> i \<longrightarrow> match_filename_at (drop k s) = None" by blast
      have "\<forall>k. j < k \<and> k \<le> Suc i \<longrightarrow> match_filename_at (drop k s) = None"
        using j(3) None by (auto simp: le_Suc_eq)
      with j show ?L by (intro exI [of _ j]) auto
    qed
    with None Suc show ?thesis by simp
  next
    case (Some fn')
    have "(\<exists>j\<le>Suc i. match_filename_at (drop j s) = Some fn \<and>
        (\<forall>k. j < k \<and> k \<le> Suc i \<longrightarrow> match_filename_at (drop k s) = None)) \<longleftrightarrow> fn' = fn"
      (is "?L \<longleftrightarrow> _")
    proof
      assume ?L
      then obtain j where j: "j \<le> Suc i" "match_filename_at (drop j s) = Some fn"
        "\<forall>k. j < k \<and> k \<le> Suc i \<longrightarrow> match_filename_at (drop k s) = None" by blast
      have "j = Suc i"
      proof (rule ccontr)
        assume "j \<noteq> Suc i"
        with j(1) have "j < Suc i \<and> Suc i \<le> Suc i" by simp
        with j(3) have "match_filename_at (drop (Suc i) s) = None" by blast
        with Some show False by simp
      qed
      with j Some show "fn' = fn" by simp
    next
      assume "fn' = fn"
      with Some show ?L by (intro exI [of _ "Suc i"]) auto
    qed
    with Some show ?thesis by simp
  qed
qed

lemma newline_free_prefix:
  "(\<exists>rest. s = pre @ rest \<and> newline \<notin> set pre) \<longleftrightarrow>
     (length pre \<le> length (takeWhile (\<lambda>c. c \<noteq> newline) s) \<and> pre = take (length pre) s)"
proof
  assume "\<exists>rest. s = pre @ rest \<and> newline \<notin> set pre"
  then obtain rest where s: "s = pre @ rest" and nl: "newline \<notin> set pre" by blast
  from nl have "takeWhile (\<lambda>c. c \<noteq> newline) s = pre @ takeWhile (\<lambda>c. c \<noteq> newline) rest"
    unfolding s by (intro takeWhile_append2) auto
  then show "length pre \<le> length (takeWhile (\<lambda>c. c \<noteq> newline) s) \<and> pre = take (length pre) s"
    using s by simp
next
  assume a: "length pre \<le> length (takeWhile (\<lambda>c. c \<noteq> newline) s) \<and> pre = take (length pre) s"
  have "s = takeWhile (\<lambda>c. c \<noteq> newline) s @ dropWhile (\<lambda>c. c \<noteq> newline) s" by simp
  then have "take (length pre) s = take (length pre) (takeWhile (\<lambda>c. c \<noteq> newline) s)"
    using a by (metis take_append diff_is_0_eq take_0 append_Nil2)
  with a have "set pre \<subseteq> set (takeWhile (\<lambda>c. c \<noteq> newline) s)"
    by (metis set_take_subset)
  then have "newline \<notin> set pre" by (auto dest: set_takeWhileD)
  moreover from a have "s = pre @ drop (length pre) s" by (metis append_take_drop_id)
  ultimately show "\<exists>rest. s = pre @ rest \<and> newline \<notin> set pre" by blast
qed

lemma re_parse_iff:
  "re_parse s pre fn \<longleftrightarrow>
     (length pre \<le> length (takeWhile (\<lambda>c. c \<noteq> newline) s) \<and> pre = take (length pre) s \<and>
      match_filename_at (drop (length pre) s) = Some fn)"
proof
  assume "re_parse s pre fn"
  then obtain post nl where s: "s = pre @ filename_literal @ fn @ [dquote] @ post @ nl"
    and rest: "newline \<notin> set pre" "fn \<noteq> []" "dquote \<notin> set fn" "newline \<notin> set post"
      "nl = [] \<or> nl = [newline]"
    unfolding re_parse_def by blast
  from s rest(1) have "\<exists>rest. s = pre @ rest \<and> newline \<notin> set pre" by blast
  then have "length pre \<le> length (takeWhile (\<lambda>c. c \<noteq> newline) s) \<and> pre = take (length pre) s"
    unfolding newline_free_prefix .
  moreover have "drop (length pre) s = filename_literal @ fn @ [dquote] @ post @ nl"
    unfolding s by simp
  then have "match_filename_at (drop (length pre) s) = Some fn"
    unfolding match_filename_at_iff using rest by blast
  ultimately show "length pre \<le> length (takeWhile (\<lambda>c. c \<noteq> newline) s) \<and>
      pre = take (length pre) s \<and> match_filename_at (drop (length pre) s) = Some fn"
    by blast
next
  assume a: "length pre \<le> length (takeWhile (\<lambda>c. c \<noteq> newline) s) \<and>
      pre = take (length pre) s \<and> match_filename_at (drop (length pre) s) = Some fn"
  then have "\<exists>rest. s = pre @ rest \<and> newline \<notin> set pre"
    unfolding newline_free_prefix by blast
  then have nl: "newline \<notin> set pre" by blast
  from a have s: "s = pre @ drop (length pre) s" by (metis append_take_drop_id)
  from a obtain post nl where "drop (length pre) s = filename_literal @ fn @ [dquote] @ post @ nl"
    "fn \<noteq> []" "dquote \<notin> set fn" "newline \<notin> set post" "nl = [] \<or> nl = [newline]"
    unfolding match_filename_at_iff by blast
  with s nl show "re_parse s pre fn" unfolding re_parse_def by metis
qed

lemma re_match_None:
  "CONTENT_DISPOSITION_FILENAME_RE_match s = None \<longleftrightarrow> \<not> (\<exists>pre fn. re_parse s pre fn)"
proof
  assume n: "CONTENT_DISPOSITION_FILENAME_RE_match s = None"
  show "\<not> (\<exists>pre fn. re_parse s pre fn)"
  proof
    assume "\<exists>pre fn. re_parse s pre fn"
    then obtain pre fn where "re_parse s pre fn" by blast
    then have "length pre \<le> length (takeWhile (\<lambda>c. c \<noteq> newline) s)"
      "match_filename_at (drop (length pre) s) = Some fn"
      unfolding re_parse_iff by simp_all
    with n show False
      unfolding CONTENT_DISPOSITION_FILENAME_RE_match_def re_backtrack_None by fastforce
  qed
next
  assume no: "\<not> (\<exists>pre fn. re_parse s pre fn)"
  have "match_filename_at (drop j s) = None"
    if "j \<le> length (takeWhile (\<lambda>c. c \<noteq> newline) s)" for j
  proof (rule ccontr)
    assume "match_filename_at (drop j s) \<noteq> None"
    then obtain fn where fn: "match_filename_at (drop j s) = Some fn" by blast
    have "length (takeWhile (\<lambda>c. c \<noteq> newline) s) \<le> length s" by (rule length_takeWhile_le)
    with that have "length (take j s) = j" by simp
    with that fn have "re_parse s (take j s) fn" unfolding re_parse_iff by simp
    with no show False by blast
  qed
  then show "CONTENT_DISPOSITION_FILENAME_RE_match s = None"
    unfolding CONTENT_DISPOSITION_FILENAME_RE_match_def re_backtrack_None by blast
qed

lemma re_match_Some:
  "CONTENT_DISPOSITION_FILENAME_RE_match s = Some fn \<longleftrightarrow>
     (\<exists>pre. re_parse s pre fn \<and> (\<forall>pre' fn'. re_parse s pre' fn' \<longrightarrow> length pre' \<le> length pre))"
proof
  assume "CONTENT_DISPOSITION_FILENAME_RE_match s = Some fn"
  then obtain j where j: "j \<le> length (takeWhile (\<lambda>c. c \<noteq> newline) s)"
    "match_filename_at (drop j s) = Some fn"
    "\<forall>k. j < k \<and> k \<le> length (takeWhile (\<lambda>c. c \<noteq> newline) s) \<longrightarrow>
        match_filename_at (drop k s) = None"
    unfolding CONTENT_DISPOSITION_FILENAME_RE_match_def re_backtrack_Some by blast
  have "length (takeWhile (\<lambda>c. c \<noteq> newline) s) \<le> length s" by (rule length_takeWhile_le)
  with j(1) have len: "length (take j s) = j" by simp
  with j have "re_parse s (take j s) fn" unfolding re_parse_iff by simp
  moreover have "length pre' \<le> length (take j s)" if "re_parse s pre' fn'" for pre' fn'
  proof (rule ccontr)
    assume "\<not> length pre' \<le> length (take j s)"
    with len have "j < length pre'" by simp
    moreover from that have "length pre' \<le> length (takeWhile (\<lambda>c. c \<noteq> newline) s)"
      "match_filename_at (drop (length pre') s) = Some fn'"
      unfolding re_parse_iff by simp_all
    ultimately show False using j(3) by fastforce
  qed
  ultimately show "\<exists>pre. re_parse s pre fn \<and>
      (\<forall>pre' fn'. re_parse s pre' fn' \<longrightarrow> length pre' \<le> length pre)"
    by blast
next
  assume "\<exists>pre. re_parse s pre fn \<and>
      (\<forall>pre' fn'. re_parse s pre' fn' \<longrightarrow> length pre' \<le> length pre)"
  then obtain pre where p: "re_parse s pre fn"
    and longest: "\<forall>pre' fn'. re_parse s pre' fn' \<longrightarrow> length pre' \<le> length pre"
    by blast
  from p have j: "length pre \<le> length (takeWhile (\<lambda>c. c \<noteq> newline) s)"
    "match_filename_at (drop (length pre) s) = Some fn"
    unfolding re_parse_iff by simp_all
  have "match_filename_at (drop k s) = None"
    if "length pre < k \<and> k \<le> length (takeWhile (\<lambda>c. c \<noteq> newline) s)" for k
  proof (rule ccontr)
    assume "match_filename_at (drop k s) \<noteq> None"
    then obtain fn' where fn': "match_filename_at (drop k s) = Some fn'" by blast
    have "length (takeWhile (\<lambda>c. c \<noteq> newline) s) \<le> length s" by (rule length_takeWhile_le)
    with that have "length (take k s) = k" by simp
    with that fn' have "re_parse s (take k s) fn'" unfolding re_parse_iff by simp
    with longest have "length (take k s) \<le> length pre" by blast
    with \<open>length (take k s) = k\<close> that show False by simp
  qed
  with j show "CONTENT_DISPOSITION_FILENAME_RE_match s = Some fn"
    unfolding CONTENT_DISPOSITION_FILENAME_RE_match_def re_backtrack_Some by blast
qed


lemma re_parse_empty: "\<not> re_parse [] pre fn"
  by (simp add: re_parse_def filename_literal_def)

lemma write_chunks_no_ValueError: "fst (write_chunks e path sofar chunks) \<noteq> Some (ValueError m)"
  by (induction chunks arbitrary: sofar) (simp_all split: option.splits)

lemma save_file_no_ValueError: "fst (save_file a e r out st) \<noteq> Inl (ValueError m)"
proof -
  obtain res sofar where w: "write_chunks e out [] (iter_content r) = (res, sofar)" by force
  with write_chunks_no_ValueError [of e out "[]" "iter_content r" m]
  have "res \<noteq> Some (ValueError m)" by simp
  with w show ?thesis by (auto simp: save_file_def split: option.splits)
qed

lemma store_download_ValueError:
  "(\<exists>m. fst (store_download a e file_response st) =
          Inl (ValueError (''Could not determine SQL backup filename from '' @ m))) \<longleftrightarrow>
   CONTENT_DISPOSITION_FILENAME_RE_match (content_disposition_of file_response) = None"
proof (cases "CONTENT_DISPOSITION_FILENAME_RE_match (content_disposition_of file_response)")
  case None
  then have "fst (store_download a e file_response st) =
      Inl (ValueError (''Could not determine SQL backup filename from '' @
                       content_disposition_of file_response))"
    by (simp add: store_download_def content_filename_of_def filename_error_def)
  with None show ?thesis by blast
next
  case (Some fn)
  obtain out st1 where "resolve_filename a e fn st = (out, st1)" by force
  with Some have "fst (store_download a e file_response st) =
      fst (save_file a e file_response out st1)"
    by (simp add: store_download_def content_filename_of_def)
  with Some show ?thesis by (simp add: save_file_no_ValueError)
qed

text \<open>The response that is stored: the error for a header that is missing or does not match,
  and the name taken from one that matches.\<close>

lemma store_download_filename:
  "((\<exists>m. fst (store_download a e file_response st) =
          Inl (ValueError (''Could not determine SQL backup filename from '' @ m))) \<longleftrightarrow>
      (map_of (headers file_response) ''Content-Disposition'' = None \<or>
       (\<exists>cd. map_of (headers file_response) ''Content-Disposition'' = Some cd \<and>
             \<not> (\<exists>pre fn. re_parse cd pre fn)))) \<and>
   (\<forall>cd pre fn.
      map_of (headers file_response) ''Content-Disposition'' = Some cd \<and> re_parse cd pre fn \<and>
      (\<forall>pre' fn'. re_parse cd pre' fn' \<longrightarrow> length pre' \<le> length pre) \<longrightarrow>
      content_filename_of file_response = Inr fn \<and>
      store_download a e file_response st =
        (case resolve_filename a e fn st of
           (out_filename, st1) \<Rightarrow> save_file a e file_response out_filename st1))"
proof (intro conjI allI impI)
  have "(map_of (headers file_response) ''Content-Disposition'' = None \<or>
       (\<exists>cd. map_of (headers file_response) ''Content-Disposition'' = Some cd \<and>
             \<not> (\<exists>pre fn. re_parse cd pre fn))) \<longleftrightarrow>
      \<not> (\<exists>pre fn. re_parse (content_disposition_of file_response) pre fn)"
    by (cases "map_of (headers file_response) ''Content-Disposition''")
       (simp_all add: content_disposition_of_def re_parse_empty)
  then show "(\<exists>m. fst (store_download a e file_response st) =
          Inl (ValueError (''Could not determine SQL backup filename from '' @ m))) \<longleftrightarrow>
      (map_of (headers file_response) ''Content-Disposition'' = None \<or>
       (\<exists>cd. map_of (headers file_response) ''Content-Disposition'' = Some cd \<and>
             \<not> (\<exists>pre fn. re_parse cd pre fn)))"
    unfolding store_download_ValueError re_match_None by simp
next
  fix cd pre fn
  assume a: "map_of (headers file_response) ''Content-Disposition'' = Some cd \<and> re_parse cd pre fn \<and>
      (\<forall>pre' fn'. re_parse cd pre' fn' \<longrightarrow> length pre' \<le> length pre)"
  then have cd: "content_disposition_of file_response = cd"
    by (simp add: content_disposition_of_def)
  from a have "CONTENT_DISPOSITION_FILENAME_RE_match cd = Some fn"
    unfolding re_match_Some by blast
  with cd show "content_filename_of file_response = Inr fn"
    by (simp add: content_filename_of_def)
  then show "store_download a e file_response st =
        (case resolve_filename a e fn st of
           (out_filename, st1) \<Rightarrow> save_file a e file_response out_filename st1)"
    by (simp add: store_download_def)
qed


section \<open>Properties of the file name resolution\<close>

lemma splitext_append: "fst (splitext p) @ snd (splitext p) = p"
  by (simp add: splitext_def Let_def)

lemma find_alternate_least:
  "\<exists>N\<ge>n. find_alternate fs base ext n = alternate_out_filename base ext N \<and>
          alternate_out_filename base ext N \<notin> set fs \<and>
          (\<forall>m. n \<le> m \<and> m < N \<longrightarrow> alternate_out_filename base ext m \<in> set fs)"
proof (induction fs base ext n rule: find_alternate.induct)
  case (1 fs base ext n)
  show ?case
  proof (cases "alternate_out_filename base ext n \<in> set fs")
    case False
    then have "find_alternate fs base ext n = alternate_out_filename base ext n"
      by (simp add: find_alternate.simps [of fs base ext n])
    with False show ?thesis by (intro exI [of _ n]) auto
  next
    case True
    with "1" obtain N where N: "n + 1 \<le> N"
        "find_alternate fs base ext (n + 1) = alternate_out_filename base ext N"
        "alternate_out_filename base ext N \<notin> set fs"
        "\<forall>m. n + 1 \<le> m \<and> m < N \<longrightarrow> alternate_out_filename base ext m \<in> set fs"
      by auto
    from True have "find_alternate fs base ext n = find_alternate fs base ext (n + 1)"
      by (simp add: find_alternate.simps [of fs base ext n])
    moreover have "\<forall>m. n \<le> m \<and> m < N \<longrightarrow> alternate_out_filename base ext m \<in> set fs"
    proof (intro allI impI)
      fix m assume "n \<le> m \<and> m < N"
      then consider "m = n" | "n + 1 \<le> m \<and> m < N" by linarith
      then show "alternate_out_filename base ext m \<in> set fs"
        using True N(4) by cases auto
    qed
    ultimately show ?thesis using N by (intro exI [of _ N]) auto
  qed
qed

text \<open>
  C8: when no regular file stands at the path, the resolved path is the output directory
  joined with the date prefix (only with \<^verbatim>\<open>prepend_date\<close>; the current UTC time in
  \<^verbatim>\<open>prefix_format\<close>, or in the default format when none is given), then the caller's
  basename if there is one and the stem of the suggested name otherwise, then the
  extension of the suggested name. Nothing is printed.
\<close>

theorem resolve_filename_without_collision:
  assumes "\<not> isfile e
      (path_join (output_directory a)
        ((if prepend_date a
          then utcnow_strftime e
                 (case prefix_format a of
                    None \<Rightarrow> ''%Y-%m-%d--%H-%M-%S-UTC_''
                  | Some f \<Rightarrow> if f = [] then ''%Y-%m-%d--%H-%M-%S-UTC_'' else f)
          else []) @
         (case basename a of None \<Rightarrow> fst (splitext content_filename) | Some b \<Rightarrow> b) @
         snd (splitext content_filename)))"
  shows "resolve_filename a e content_filename st =
      (path_join (output_directory a)
        ((if prepend_date a
          then utcnow_strftime e
                 (case prefix_format a of
                    None \<Rightarrow> ''%Y-%m-%d--%H-%M-%S-UTC_''
                  | Some f \<Rightarrow> if f = [] then ''%Y-%m-%d--%H-%M-%S-UTC_'' else f)
          else []) @
         (case basename a of None \<Rightarrow> fst (splitext content_filename) | Some b \<Rightarrow> b) @
         snd (splitext content_filename)), st)"
proof -
  have "plain_out_filename a e content_filename =
      path_join (output_directory a)
        ((if prepend_date a
          then utcnow_strftime e
                 (case prefix_format a of
                    None \<Rightarrow> ''%Y-%m-%d--%H-%M-%S-UTC_''
                  | Some f \<Rightarrow> if f = [] then ''%Y-%m-%d--%H-%M-%S-UTC_'' else f)
          else []) @
         (case basename a of None \<Rightarrow> fst (splitext content_filename) | Some b \<Rightarrow> b) @
         snd (splitext content_filename))"
    by (simp add: plain_out_filename_def prefix_format_or_default_def DEFAULT_PREFIX_FORMAT_def
        splitext_append split: option.splits)
  with assms show ?thesis by (simp add: resolve_filename_def)
qed

text \<open>
  C6: without \<^verbatim>\<open>overwrite_existing\<close> the resolved path is never a regular file; when the
  plain path is one, the resolved path is the plain path with \<^verbatim>\<open>_(N)\<close> put before its
  extension, for an \<open>N\<close> from 1 on such that the paths for all smaller numbers are
  regular files.
\<close>

theorem resolve_filename_collision:
  assumes "\<not> overwrite_existing a"
  shows "\<not> isfile e (fst (resolve_filename a e content_filename st)) \<and>
    (isfile e (plain_out_filename a e content_filename) \<longrightarrow>
       (\<exists>N\<ge>1.
          fst (resolve_filename a e content_filename st) =
            fst (splitext (plain_out_filename a e content_filename)) @ ''_('' @ str_nat N @ '')'' @
            snd (splitext (plain_out_filename a e content_filename)) \<and>
          (\<forall>m. 1 \<le> m \<and> m < N \<longrightarrow>
             isfile e (fst (splitext (plain_out_filename a e content_filename)) @ ''_('' @ str_nat m @ '')'' @
                       snd (splitext (plain_out_filename a e content_filename))))))"
proof (cases "isfile e (plain_out_filename a e content_filename)")
  case False
  then show ?thesis by (simp add: resolve_filename_def)
next
  case True
  let ?out = "plain_out_filename a e content_filename"
  obtain base ext where se: "splitext ?out = (base, ext)" by force
  from True assms se have res: "fst (resolve_filename a e content_filename st) =
      find_alternate (files e) base ext 1"
    by (simp add: resolve_filename_def)
  from find_alternate_least [of 1 "files e" base ext] obtain N where
    "1 \<le> N" "find_alternate (files e) base ext 1 = alternate_out_filename base ext N"
    "alternate_out_filename base ext N \<notin> set (files e)"
    "\<forall>m. 1 \<le> m \<and> m < N \<longrightarrow> alternate_out_filename base ext m \<in> set (files e)"
    by blast
  with res se show ?thesis
    by (auto simp: isfile_def alternate_out_filename_def)
qed


theorem resolve_filename_without_collision_witness:
  "resolve_filename (sample_args\<lparr>prepend_date := True, basename := Some ''nightly''\<rparr>)
     (sample_env (\<lambda>h. Inl []) [''/var/backups/shop_logs.sql'']) ''shop_logs.sql'' initial_state =
   (''/var/backups/2024-12-01--13-05-09-UTC_nightly.sql'', initial_state)"
proof -
  let ?a = "sample_args\<lparr>prepend_date := True, basename := Some ''nightly''\<rparr>"
  let ?e = "sample_env (\<lambda>h. Inl []) [''/var/backups/shop_logs.sql'']"
  have path: "path_join (output_directory ?a)
        ((if prepend_date ?a
          then utcnow_strftime ?e
                 (case prefix_format ?a of
                    None \<Rightarrow> ''%Y-%m-%d--%H-%M-%S-UTC_''
                  | Some f \<Rightarrow> if f = [] then ''%Y-%m-%d--%H-%M-%S-UTC_'' else f)
          else []) @
         (case basename ?a of None \<Rightarrow> fst (splitext ''shop_logs.sql'') | Some b \<Rightarrow> b) @
         snd (splitext ''shop_logs.sql''))
      = ''/var/backups/2024-12-01--13-05-09-UTC_nightly.sql''"
    by code_simp
  have free: "\<not> isfile ?e ''/var/backups/2024-12-01--13-05-09-UTC_nightly.sql''"
    by code_simp
  show ?thesis
    using resolve_filename_without_collision [of ?e ?a "''shop_logs.sql''" initial_state]
    unfolding path using free by simp
qed

theorem resolve_filename_collision_witness:
  "isfile (sample_env (\<lambda>h. Inl []) [''/var/backups/shop_logs.sql'', ''/var/backups/shop_logs_(1).sql''])
     (plain_out_filename sample_args
        (sample_env (\<lambda>h. Inl []) [''/var/backups/shop_logs.sql'', ''/var/backups/shop_logs_(1).sql''])
        ''shop_logs.sql'') \<and>
   \<not> isfile (sample_env (\<lambda>h. Inl []) [''/var/backups/shop_logs.sql'', ''/var/backups/shop_logs_(1).sql''])
       (fst (resolve_filename sample_args
          (sample_env (\<lambda>h. Inl []) [''/var/backups/shop_logs.sql'', ''/var/backups/shop_logs_(1).sql''])
          ''shop_logs.sql'' initial_state)) \<and>
   (\<exists>N\<ge>1. fst (resolve_filename sample_args
          (sample_env (\<lambda>h. Inl []) [''/var/backups/shop_logs.sql'', ''/var/backups/shop_logs_(1).sql''])
          ''shop_logs.sql'' initial_state) = ''/var/backups/shop_logs'' @ ''_('' @ str_nat N @ '')'' @ ''.sql'') \<and>
   fst (resolve_filename sample_args
          (sample_env (\<lambda>h. Inl []) [''/var/backups/shop_logs.sql'', ''/var/backups/shop_logs_(1).sql''])
          ''shop_logs.sql'' initial_state) = ''/var/backups/shop_logs_(2).sql''"
proof -
  let ?e = "sample_env (\<lambda>h. Inl []) [''/var/backups/shop_logs.sql'', ''/var/backups/shop_logs_(1).sql'']"
  have keep: "\<not> overwrite_existing sample_args" by code_simp
  have taken: "isfile ?e (plain_out_filename sample_args ?e ''shop_logs.sql'')" by code_simp
  have parts: "splitext (plain_out_filename sample_args ?e ''shop_logs.sql'') =
      (''/var/backups/shop_logs'', ''.sql'')"
    by code_simp
  from resolve_filename_collision [OF keep, of ?e "''shop_logs.sql''" initial_state] taken
  have free: "\<not> isfile ?e (fst (resolve_filename sample_args ?e ''shop_logs.sql'' initial_state))"
    and "\<exists>N\<ge>1. fst (resolve_filename sample_args ?e ''shop_logs.sql'' initial_state) =
        fst (splitext (plain_out_filename sample_args ?e ''shop_logs.sql'')) @ ''_('' @ str_nat N @ '')'' @
        snd (splitext (plain_out_filename sample_args ?e ''shop_logs.sql''))"
    by blast+
  then have numbered: "\<exists>N\<ge>1. fst (resolve_filename sample_args ?e ''shop_logs.sql'' initial_state) =
      ''/var/backups/shop_logs'' @ ''_('' @ str_nat N @ '')'' @ ''.sql''"
    by (simp only: parts fst_conv snd_conv)
  have "fst (resolve_filename sample_args ?e ''shop_logs.sql'' initial_state) =
      ''/var/backups/shop_logs_(2).sql''"
    by code_simp
  with taken free numbered show ?thesis by blast
qed

section \<open>What a run sends and receives\<close>

lemma session_request_exchanges:
  "exchanges (snd (session_request e s rq st)) =
     exchanges st @ [(rq\<lparr>rq_auth := session_auth s\<rparr>,
                     server e (map fst (exchanges st) @ [rq\<lparr>rq_auth := session_auth s\<rparr>]))]"
  by (simp add: session_request_def Let_def split: sum.splits)

lemma session_request_result:
  "fst (session_request e s rq st) =
     (case server e (map fst (exchanges st) @ [rq\<lparr>rq_auth := session_auth s\<rparr>]) of
        Inl msg \<Rightarrow> Inl (RequestError msg)
      | Inr r \<Rightarrow> Inr r)"
  by (simp add: session_request_def Let_def split: sum.splits)

lemma session_request_prints:
  "stderr (snd (session_request e s rq st)) = stderr st"
  "written (snd (session_request e s rq st)) = written st"
  by (simp_all add: session_request_def Let_def split: sum.splits)

lemma session_get_exchanges:
  "\<exists>x. exchanges (snd (session_get e s u t st)) = exchanges st @ [x]"
  by (simp add: session_get_def session_request_exchanges)

lemma session_post_exchanges:
  "\<exists>x. exchanges (snd (session_post e s u d t str st)) = exchanges st @ [x]"
  by (simp add: session_post_def session_request_exchanges)

lemma access_export_page_exchanges:
  "\<exists>x. exchanges (snd (access_export_page a e s export_url st)) = exchanges st @ [x]"
proof -
  obtain res st1 where r: "session_get e s (urljoin e (url a) export_url) (timeout a) st = (res, st1)"
    by force
  then have "\<exists>x. exchanges st1 = exchanges st @ [x]"
    using session_get_exchanges [of e s "urljoin e (url a) export_url" "timeout a" st] by simp
  moreover have "snd (access_export_page a e s export_url st) = st1"
    using r by (simp add: access_export_page_def split: sum.splits option.splits)
  ultimately show ?thesis by simp
qed

lemma export_and_store_prefix:
  "prefix (exchanges st) (exchanges (snd (export_and_store a e s export_tree st)))"
proof -
  obtain dbs st1 where dd: "determine_databases a export_tree st = (dbs, st1)" by force
  then have st1: "exchanges st1 = exchanges st"
    by (auto simp: determine_databases_def Let_def print_stderr_def split: if_splits)
  show ?thesis
  proof (cases "prepare_form_data a dbs export_tree")
    case (Inl err)
    with dd st1 show ?thesis by (simp add: export_and_store_def)
  next
    case (Inr p)
    obtain act fd where p: "p = (act, fd)" by force
    obtain res st2 where sp:
      "session_post e s (urljoin e (url a) act) fd (timeout a) True st1 = (res, st2)" by force
    then have st2: "prefix (exchanges st1) (exchanges st2)"
      using session_post_exchanges [of e s "urljoin e (url a) act" fd "timeout a" True st1] by auto
    show ?thesis
    proof (cases res)
      case (Inl err)
      with dd Inr p sp st1 st2 show ?thesis by (simp add: export_and_store_def)
    next
      case (Inr file_response)
      with dd \<open>prepare_form_data a dbs export_tree = Inr p\<close> p sp
      have "snd (export_and_store a e s export_tree st) = snd (store_download a e file_response st2)"
        by (simp add: export_and_store_def)
      with st1 st2 show ?thesis by (simp add: store_download_exchanges)
    qed
  qed
qed

lemma download_sql_backup_prefix:
  "prefix (exchanges (snd (login a e Session initial_state)))
          (exchanges (snd (download_sql_backup a e)))"
proof -
  obtain res st1 where lg: "login a e Session initial_state = (res, st1)" by force
  show ?thesis
  proof (cases res)
    case (Inl err)
    with lg show ?thesis by (simp add: download_sql_backup_def)
  next
    case (Inr tree)
    show ?thesis
    proof (cases "extract_export_url tree")
      case (Inl err)
      with lg Inr show ?thesis by (simp add: download_sql_backup_def)
    next
      case eu: (Inr export_url)
      obtain res2 st2 where ap: "access_export_page a e Session export_url st1 = (res2, st2)"
        by force
      then have p2: "prefix (exchanges st1) (exchanges st2)"
        using access_export_page_exchanges [of a e Session export_url st1] by auto
      show ?thesis
      proof (cases res2)
        case (Inl err)
        with lg Inr eu ap p2 show ?thesis by (simp add: download_sql_backup_def)
      next
        case et: (Inr export_tree)
        with lg Inr eu ap have "snd (download_sql_backup a e) =
            snd (export_and_store a e Session export_tree st2)"
          by (simp add: download_sql_backup_def)
        with p2 lg show ?thesis
          using export_and_store_prefix [of st2 a e Session export_tree]
          by (auto intro: prefix_order.trans)
      qed
    qed
  qed
qed


section \<open>A login page without the login form\<close>

lemma walk_ancestors:
  "(anc', x) \<in> set (walk anc t) \<Longrightarrow> set anc' \<subseteq> set anc \<union> snd ` set (walk anc t)"
proof (induction t arbitrary: anc anc' x)
  case (Element tg as cs)
  let ?t = "Element tg as cs"
  from Element.prems consider "(anc', x) = (anc, ?t)"
    | c where "c \<in> set cs" "(anc', x) \<in> set (walk (?t # anc) c)"
    by auto
  then show ?case
  proof cases
    case 1
    then show ?thesis by auto
  next
    case 2
    with Element.IH have "set anc' \<subseteq> set (?t # anc) \<union> snd ` set (walk (?t # anc) c)" by blast
    then have "set anc' \<subseteq> insert ?t (set anc) \<union> snd ` set (walk (?t # anc) c)" by simp
    moreover have "snd ` set (walk (?t # anc) c) \<subseteq> snd ` set (walk anc ?t)"
      using 2(1) by auto
    moreover have "?t \<in> snd ` set (walk anc ?t)" by (simp add: image_iff)
    ultimately show ?thesis by blast
  qed
qed

lemma no_login_form_action:
  assumes "filter is_login_form (map snd (walk [] tree)) = []"
  shows "xpath_login_form_action tree = []"
proof -
  from assms have "\<forall>p \<in> set (walk [] tree). \<not> is_login_form (snd p)"
    by (auto simp: filter_empty_conv)
  then show ?thesis by (auto simp: xpath_login_form_action_def)
qed

lemma no_login_form_hidden_inputs:
  assumes "filter is_login_form (map snd (walk [] tree)) = []"
  shows "xpath_login_hidden_inputs tree = []"
proof -
  from assms have none: "\<forall>x \<in> snd ` set (walk [] tree). \<not> is_login_form x"
    by (auto simp: filter_empty_conv)
  have "\<not> list_ex is_login_form anc" if "(anc, x) \<in> set (walk [] tree)" for anc x
  proof -
    from walk_ancestors [OF that] have "set anc \<subseteq> snd ` set (walk [] tree)" by simp
    with none show ?thesis by (auto simp: list_ex_iff)
  qed
  then show ?thesis by (auto simp: xpath_login_hidden_inputs_def filter_empty_conv)
qed

text \<open>
  C1, as the script has it: a login page without a form \<^verbatim>\<open>login_form\<close> does not stop the
  run. The action falls back to the login URL, no hidden field is added, and the second
  request of the run posts the user name and the password there.
\<close>

theorem login_page_without_form:
  assumes "server e [\<lparr>rq_method = GET, rq_url = url a, rq_data = [], rq_auth = None,
                       rq_timeout = timeout a, rq_stream = False\<rparr>] = Inr response"
    and "status_code response = 200"
    and "content response = Some tree"
    and "filter is_login_form (map snd (walk [] tree)) = []"
  shows "\<exists>reply rest. exchanges (snd (download_sql_backup a e)) =
      (\<lparr>rq_method = GET, rq_url = url a, rq_data = [], rq_auth = None,
        rq_timeout = timeout a, rq_stream = False\<rparr>, Inr response) #
      (\<lparr>rq_method = POST, rq_url = urljoin e (url a) (url a),
        rq_data = [(''pma_username'', Str (user a)), (''pma_password'', Str (password a))],
        rq_auth = None, rq_timeout = timeout a, rq_stream = False\<rparr>, reply) # rest"
proof -
  let ?get = "\<lparr>rq_method = GET, rq_url = url a, rq_data = [], rq_auth = None,
        rq_timeout = timeout a, rq_stream = False\<rparr>"
  let ?post = "\<lparr>rq_method = POST, rq_url = urljoin e (url a) (url a),
        rq_data = [(''pma_username'', Str (user a)), (''pma_password'', Str (password a))],
        rq_auth = None, rq_timeout = timeout a, rq_stream = False\<rparr>"
  let ?st1 = "initial_state\<lparr>exchanges := [(?get, Inr response)]\<rparr>"
  have get: "session_get e Session (url a) (timeout a) initial_state = (Inr response, ?st1)"
    using assms(1) by (simp add: session_get_def session_request_def Session_def initial_state_def)
  have post: "exchanges (snd (session_post e Session (urljoin e (url a) (url a))
        [(''pma_username'', Str (user a)), (''pma_password'', Str (password a))] (timeout a) False ?st1)) =
      [(?get, Inr response), (?post, server e [?get, ?post])]"
    by (simp add: session_post_def session_request_exchanges Session_def)
  obtain res st2 where sp: "session_post e Session (urljoin e (url a) (url a))
        [(''pma_username'', Str (user a)), (''pma_password'', Str (password a))] (timeout a) False ?st1
      = (res, st2)" by force
  with post have st2: "exchanges st2 = [(?get, Inr response), (?post, server e [?get, ?post])]"
    by simp
  have "snd (login a e Session initial_state) = st2"
    using get sp assms(2,3) no_login_form_action [OF assms(4)] no_login_form_hidden_inputs [OF assms(4)]
    by (simp add: login_def submit_login_def split: sum.splits option.splits)
  with st2 have "prefix [(?get, Inr response), (?post, server e [?get, ?post])]
      (exchanges (snd (download_sql_backup a e)))"
    using download_sql_backup_prefix [of a e] by simp
  then obtain rest where "exchanges (snd (download_sql_backup a e)) =
      [(?get, Inr response), (?post, server e [?get, ?post])] @ rest"
    by (auto simp: prefix_def)
  then show ?thesis by simp
qed


text \<open>
  The claim that such a run fails before any POST is false: on the sample console with a
  login page without any form the credentials are posted and the run even succeeds.
\<close>

theorem login_page_without_form_counterexample:
  "filter is_login_form (map snd (walk [] sample_formless_page)) = [] \<and>
   map (\<lambda>x. (rq_method (fst x), rq_url (fst x), rq_data (fst x)))
     (take 2 (exchanges (snd (download_sql_backup sample_args
        (sample_env (sample_server sample_formless_page 200 (sample_export_page [])
           [(''Content-Disposition'', sample_disposition)]) [])))))
     = [(GET, ''http://db.example/index.php'', []),
        (POST, ''http://db.example/index.php'',
         [(''pma_username'', Str ''backup''), (''pma_password'', Str ''hunter2'')])] \<and>
   fst (download_sql_backup sample_args
        (sample_env (sample_server sample_formless_page 200 (sample_export_page [])
           [(''Content-Disposition'', sample_disposition)]) []))
     = Inr ''/var/backups/shop_logs.sql''"
  by code_simp

theorem login_page_without_form_witness:
  "\<exists>reply rest.
     exchanges (snd (download_sql_backup sample_args
        (sample_env (sample_server sample_formless_page 200 (sample_export_page []) []) []))) =
     (\<lparr>rq_method = GET, rq_url = ''http://db.example/index.php'', rq_data = [], rq_auth = None,
       rq_timeout = 60, rq_stream = False\<rparr>, Inr (sample_page_response 200 sample_formless_page)) #
     (\<lparr>rq_method = POST, rq_url = ''http://db.example/index.php'',
       rq_data = [(''pma_username'', Str ''backup''), (''pma_password'', Str ''hunter2'')],
       rq_auth = None, rq_timeout = 60, rq_stream = False\<rparr>, reply) # rest"
proof -
  let ?e = "sample_env (sample_server sample_formless_page 200 (sample_export_page []) []) []"
  let ?r = "sample_page_response 200 sample_formless_page"
  have 1: "server ?e [\<lparr>rq_method = GET, rq_url = url sample_args, rq_data = [], rq_auth = None,
                       rq_timeout = timeout sample_args, rq_stream = False\<rparr>] = Inr ?r"
    by (simp add: sample_env_def sample_server_def)
  have 2: "status_code ?r = 200" by (simp add: sample_page_response_def)
  have 3: "content ?r = Some sample_formless_page" by (simp add: sample_page_response_def)
  have 4: "filter is_login_form (map snd (walk [] sample_formless_page)) = []"
    by code_simp
  have "urljoin ?e (url sample_args) (url sample_args) = ''http://db.example/index.php''"
    by code_simp
  then show ?thesis
    using login_page_without_form [OF 1 2 3 4]
    by (simp add: sample_args_def)
qed

text \<open>
  C2: with \<^verbatim>\<open>http_auth\<close> set, none of the four requests of a successful run carries
  credentials. The parameter is never read.
\<close>

theorem http_auth_not_attached:
  "http_auth (sample_args\<lparr>http_auth := Some ''admin:secret''\<rparr>) = Some ''admin:secret'' \<and>
   map (\<lambda>x. rq_auth (fst x))
     (exchanges (snd (download_sql_backup (sample_args\<lparr>http_auth := Some ''admin:secret''\<rparr>)
        (sample_env (sample_server sample_login_page 200 (sample_export_page [])
           [(''Content-Disposition'', sample_disposition)]) []))))
     = [None, None, None, None] \<and>
   fst (download_sql_backup (sample_args\<lparr>http_auth := Some ''admin:secret''\<rparr>)
        (sample_env (sample_server sample_login_page 200 (sample_export_page [])
           [(''Content-Disposition'', sample_disposition)]) []))
     = Inr ''/var/backups/shop_logs.sql''"
  by code_simp

text \<open>
  C5: the export page arrives with status 500 and the run goes on to export and store
  the dump; the status of that response is not looked at.
\<close>

theorem export_page_status_unchecked:
  "map (\<lambda>x. map_sum id status_code (snd x))
     (exchanges (snd (download_sql_backup sample_args
        (sample_env (sample_server sample_login_page 500 (sample_export_page [])
           [(''Content-Disposition'', sample_disposition)]) []))))
     = [Inr 200, Inr 200, Inr 500, Inr 200] \<and>
   fst (download_sql_backup sample_args
        (sample_env (sample_server sample_login_page 500 (sample_export_page [])
           [(''Content-Disposition'', sample_disposition)]) []))
     = Inr ''/var/backups/shop_logs.sql''"
  by code_simp

section \<open>The password and the outcome of a run\<close>

lemma snoc_prefix_same:
  assumes "prefix (xs @ [x]) zs" and "prefix (ys @ [y]) zs" and "length xs = length ys"
  shows "x = y"
proof -
  from assms(1) obtain r1 where "zs = xs @ x # r1" by (auto simp: prefix_def)
  moreover from assms(2) obtain r2 where "zs = ys @ y # r2" by (auto simp: prefix_def)
  ultimately have "xs @ x # r1 = ys @ y # r2" by simp
  with assms(3) show ?thesis by simp
qed

lemma session_request_lockstep:
  assumes view: "same_view st1 st2"
    and p1: "prefix (map snd (exchanges (snd (session_request e s rq1 st1)))) R"
    and p2: "prefix (map snd (exchanges (snd (session_request e s rq2 st2)))) R"
  shows "fst (session_request e s rq1 st1) = fst (session_request e s rq2 st2) \<and>
         same_view (snd (session_request e s rq1 st1)) (snd (session_request e s rq2 st2))"
proof -
  let ?r1 = "server e (map fst (exchanges st1) @ [rq1\<lparr>rq_auth := session_auth s\<rparr>])"
  let ?r2 = "server e (map fst (exchanges st2) @ [rq2\<lparr>rq_auth := session_auth s\<rparr>])"
  have e1: "map snd (exchanges (snd (session_request e s rq1 st1))) = map snd (exchanges st1) @ [?r1]"
    by (simp add: session_request_exchanges)
  have e2: "map snd (exchanges (snd (session_request e s rq2 st2))) = map snd (exchanges st2) @ [?r2]"
    by (simp add: session_request_exchanges)
  from view have len: "length (map snd (exchanges st1)) = length (map snd (exchanges st2))"
    by (simp add: same_view_def)
  from p1 p2 have "?r1 = ?r2"
    unfolding e1 e2 using len by (rule snoc_prefix_same)
  then show ?thesis
    using view e1 e2
    by (simp add: session_request_result same_view_def session_request_prints)
qed

lemma session_get_lockstep:
  assumes "same_view st1 st2"
    and "prefix (map snd (exchanges (snd (session_get e s u t st1)))) R"
    and "prefix (map snd (exchanges (snd (session_get e s u t st2)))) R"
  shows "fst (session_get e s u t st1) = fst (session_get e s u t st2) \<and>
         same_view (snd (session_get e s u t st1)) (snd (session_get e s u t st2))"
  using assms unfolding session_get_def by (rule session_request_lockstep)

lemma session_post_lockstep:
  assumes "same_view st1 st2"
    and "prefix (map snd (exchanges (snd (session_post e s u d1 t b st1)))) R"
    and "prefix (map snd (exchanges (snd (session_post e s u d2 t b st2)))) R"
  shows "fst (session_post e s u d1 t b st1) = fst (session_post e s u d2 t b st2) \<and>
         same_view (snd (session_post e s u d1 t b st1)) (snd (session_post e s u d2 t b st2))"
  using assms unfolding session_post_def by (rule session_request_lockstep)

lemma submit_login_state:
  "snd (submit_login a e s tree st) =
     snd (session_post e s
            (urljoin e (url a) (case xpath_login_form_action tree of [] \<Rightarrow> url a | x # _ \<Rightarrow> x))
            (add_hidden_inputs [(''pma_username'', Str (user a)), (''pma_password'', Str (password a))]
               (xpath_login_hidden_inputs tree))
            (timeout a) False st)"
  by (simp add: submit_login_def Let_def split: prod.splits sum.splits option.splits)

lemma submit_login_result:
  "fst (submit_login a e s tree st) =
     (case fst (session_post e s
            (urljoin e (url a) (case xpath_login_form_action tree of [] \<Rightarrow> url a | x # _ \<Rightarrow> x))
            (add_hidden_inputs [(''pma_username'', Str (user a)), (''pma_password'', Str (password a))]
               (xpath_login_hidden_inputs tree))
            (timeout a) False st) of
        Inl err \<Rightarrow> Inl err
      | Inr login_response \<Rightarrow>
          if status_code login_response \<noteq> 200
          then Inl (ValueError ''Could not log in. Please check your credentials.'')
          else (case content login_response of
                  None \<Rightarrow> Inl ParserError
                | Some tree \<Rightarrow>
                    if \<not> is_login_successful tree
                    then Inl (ValueError ''Could not log in. Please check your credentials.'')
                    else Inr tree))"
  by (simp add: submit_login_def Let_def split: prod.splits sum.splits option.splits)

lemma submit_login_lockstep:
  assumes view: "same_view st1 st2"
    and p1: "prefix (map snd (exchanges (snd (submit_login (a\<lparr>password := q1\<rparr>) e s tree st1)))) R"
    and p2: "prefix (map snd (exchanges (snd (submit_login (a\<lparr>password := q2\<rparr>) e s tree st2)))) R"
  shows "fst (submit_login (a\<lparr>password := q1\<rparr>) e s tree st1) =
         fst (submit_login (a\<lparr>password := q2\<rparr>) e s tree st2) \<and>
         same_view (snd (submit_login (a\<lparr>password := q1\<rparr>) e s tree st1))
                   (snd (submit_login (a\<lparr>password := q2\<rparr>) e s tree st2))"
proof -
  define u where "u = urljoin e (url a) (case xpath_login_form_action tree of [] \<Rightarrow> url a | x # _ \<Rightarrow> x)"
  define d where "d = (\<lambda>q. add_hidden_inputs [(''pma_username'', Str (user a)), (''pma_password'', Str q)]
               (xpath_login_hidden_inputs tree))"
  have st: "snd (submit_login (a\<lparr>password := q\<rparr>) e s tree st) =
      snd (session_post e s u (d q) (timeout a) False st)" for q st
    by (simp add: submit_login_state u_def d_def cong: list.case_cong)
  have res: "fst (submit_login (a\<lparr>password := q\<rparr>) e s tree st) =
     (case fst (session_post e s u (d q) (timeout a) False st) of
        Inl err \<Rightarrow> Inl err
      | Inr login_response \<Rightarrow>
          if status_code login_response \<noteq> 200
          then Inl (ValueError ''Could not log in. Please check your credentials.'')
          else (case content login_response of
                  None \<Rightarrow> Inl ParserError
                | Some tree \<Rightarrow>
                    if \<not> is_login_successful tree
                    then Inl (ValueError ''Could not log in. Please check your credentials.'')
                    else Inr tree))" for q st
    by (simp add: submit_login_result u_def d_def cong: list.case_cong)
  from p1 p2 have "fst (session_post e s u (d q1) (timeout a) False st1) =
        fst (session_post e s u (d q2) (timeout a) False st2) \<and>
      same_view (snd (session_post e s u (d q1) (timeout a) False st1))
                (snd (session_post e s u (d q2) (timeout a) False st2))"
    unfolding st by (rule session_post_lockstep [OF view])
  then show ?thesis unfolding st res by simp
qed

lemma submit_login_prefix:
  "prefix (exchanges st) (exchanges (snd (submit_login a e s tree st)))"
  unfolding submit_login_state
  using session_post_exchanges [of e s _ _ "timeout a" False st] by (metis prefixI)

lemma login_cases:
  "login a e s st =
     (case fst (session_get e s (url a) (timeout a) st) of
        Inl err \<Rightarrow> (Inl err, snd (session_get e s (url a) (timeout a) st))
      | Inr response \<Rightarrow>
          if status_code response \<noteq> 200
          then (Inl (ValueError ''Failed to load the login page.''),
                snd (session_get e s (url a) (timeout a) st))
          else
            (case content response of
               None \<Rightarrow> (Inl ParserError, snd (session_get e s (url a) (timeout a) st))
             | Some tree \<Rightarrow>
                 submit_login a e s tree (snd (session_get e s (url a) (timeout a) st))))"
  by (simp add: login_def split: prod.splits sum.splits option.splits)

lemma login_prefix_get:
  "prefix (exchanges (snd (session_get e s (url a) (timeout a) st)))
          (exchanges (snd (login a e s st)))"
  unfolding login_cases [of a e s st]
  by (simp add: submit_login_prefix split: sum.splits option.splits)

lemma login_lockstep:
  assumes view: "same_view st1 st2"
    and p1: "prefix (map snd (exchanges (snd (login (a\<lparr>password := q1\<rparr>) e s st1)))) R"
    and p2: "prefix (map snd (exchanges (snd (login (a\<lparr>password := q2\<rparr>) e s st2)))) R"
  shows "fst (login (a\<lparr>password := q1\<rparr>) e s st1) = fst (login (a\<lparr>password := q2\<rparr>) e s st2) \<and>
         same_view (snd (login (a\<lparr>password := q1\<rparr>) e s st1))
                   (snd (login (a\<lparr>password := q2\<rparr>) e s st2))"
proof -
  let ?g1 = "session_get e s (url a) (timeout a) st1"
  let ?g2 = "session_get e s (url a) (timeout a) st2"
  have "prefix (map snd (exchanges (snd ?g1))) (map snd (exchanges (snd (login (a\<lparr>password := q1\<rparr>) e s st1))))"
    using login_prefix_get [of e s "a\<lparr>password := q1\<rparr>" st1] by (simp add: map_mono_prefix)
  from this p1 have g1: "prefix (map snd (exchanges (snd ?g1))) R" by (rule prefix_order.trans)
  have "prefix (map snd (exchanges (snd ?g2))) (map snd (exchanges (snd (login (a\<lparr>password := q2\<rparr>) e s st2))))"
    using login_prefix_get [of e s "a\<lparr>password := q2\<rparr>" st2] by (simp add: map_mono_prefix)
  from this p2 have g2: "prefix (map snd (exchanges (snd ?g2))) R" by (rule prefix_order.trans)
  from session_get_lockstep [OF view g1 g2]
  have fst_eq: "fst ?g1 = fst ?g2" and view': "same_view (snd ?g1) (snd ?g2)" by simp_all
  show ?thesis
  proof (cases "fst ?g1")
    case (Inl err)
    with fst_eq have "fst ?g2 = Inl err" by simp
    with Inl view' show ?thesis by (simp add: login_cases)
  next
    case (Inr response)
    with fst_eq have r2: "fst ?g2 = Inr response" by simp
    show ?thesis
    proof (cases "status_code response \<noteq> 200")
      case True
      with Inr r2 view' show ?thesis by (simp add: login_cases)
    next
      case ok: False
      show ?thesis
      proof (cases "content response")
        case None
        with Inr r2 ok view' show ?thesis by (simp add: login_cases)
      next
        case (Some tree)
        with Inr r2 ok have l1: "login (a\<lparr>password := q1\<rparr>) e s st1 =
            submit_login (a\<lparr>password := q1\<rparr>) e s tree (snd ?g1)"
          and l2: "login (a\<lparr>password := q2\<rparr>) e s st2 =
            submit_login (a\<lparr>password := q2\<rparr>) e s tree (snd ?g2)"
          by (simp_all add: login_cases)
        from p1 p2 show ?thesis
          unfolding l1 l2 by (rule submit_login_lockstep [OF view'])
      qed
    qed
  qed
qed



lemma access_export_page_cases:
  "access_export_page a e s export_url st =
     (case fst (session_get e s (urljoin e (url a) export_url) (timeout a) st) of
        Inl err \<Rightarrow> Inl err
      | Inr export_response \<Rightarrow>
          (case content export_response of
             None \<Rightarrow> Inl ParserError
           | Some export_tree \<Rightarrow> Inr export_tree),
      snd (session_get e s (urljoin e (url a) export_url) (timeout a) st))"
  by (simp add: access_export_page_def split: prod.splits sum.splits option.splits)

lemma access_export_page_lockstep:
  assumes view: "same_view st1 st2"
    and p1: "prefix (map snd (exchanges (snd (access_export_page a e s u st1)))) R"
    and p2: "prefix (map snd (exchanges (snd (access_export_page a e s u st2)))) R"
  shows "fst (access_export_page a e s u st1) = fst (access_export_page a e s u st2) \<and>
         same_view (snd (access_export_page a e s u st1)) (snd (access_export_page a e s u st2))"
proof -
  from p1 p2 have "fst (session_get e s (urljoin e (url a) u) (timeout a) st1) =
        fst (session_get e s (urljoin e (url a) u) (timeout a) st2) \<and>
      same_view (snd (session_get e s (urljoin e (url a) u) (timeout a) st1))
                (snd (session_get e s (urljoin e (url a) u) (timeout a) st2))"
    unfolding access_export_page_cases snd_conv by (rule session_get_lockstep [OF view])
  then show ?thesis unfolding access_export_page_cases by simp
qed

lemma determine_databases_lockstep:
  assumes "same_view st1 st2"
  shows "fst (determine_databases a t st1) = fst (determine_databases a t st2) \<and>
         same_view (snd (determine_databases a t st1)) (snd (determine_databases a t st2))"
  using assms by (simp add: determine_databases_def Let_def same_view_def print_stderr_def)

lemma determine_databases_exchanges:
  "exchanges (snd (determine_databases a t st)) = exchanges st"
  by (simp add: determine_databases_def Let_def print_stderr_def)

lemma resolve_filename_lockstep:
  assumes "same_view st1 st2"
  shows "fst (resolve_filename a e fn st1) = fst (resolve_filename a e fn st2) \<and>
         same_view (snd (resolve_filename a e fn st1)) (snd (resolve_filename a e fn st2))"
  using assms
  by (simp add: resolve_filename_def Let_def same_view_def print_stderr_def split: prod.splits)

lemma save_file_lockstep:
  assumes "same_view st1 st2"
  shows "fst (save_file a e r out st1) = fst (save_file a e r out st2) \<and>
         same_view (snd (save_file a e r out st1)) (snd (save_file a e r out st2))"
  using assms by (simp add: save_file_def same_view_def split: prod.splits option.splits)

lemma store_download_cases:
  "store_download a e r st =
     (case content_filename_of r of
        Inl err \<Rightarrow> (Inl err, st)
      | Inr fn \<Rightarrow> save_file a e r (fst (resolve_filename a e fn st)) (snd (resolve_filename a e fn st)))"
  by (simp add: store_download_def split: sum.splits prod.splits)

lemma store_download_lockstep:
  assumes view: "same_view st1 st2"
  shows "fst (store_download a e r st1) = fst (store_download a e r st2) \<and>
         same_view (snd (store_download a e r st1)) (snd (store_download a e r st2))"
proof (cases "content_filename_of r")
  case (Inl err)
  with view show ?thesis by (simp add: store_download_cases)
next
  case (Inr fn)
  from resolve_filename_lockstep [OF view, of a e fn]
  have out: "fst (resolve_filename a e fn st1) = fst (resolve_filename a e fn st2)"
    and view': "same_view (snd (resolve_filename a e fn st1)) (snd (resolve_filename a e fn st2))"
    by simp_all
  from save_file_lockstep [OF view', of a e r "fst (resolve_filename a e fn st2)"] Inr out
  show ?thesis by (simp add: store_download_cases)
qed

lemma export_and_store_cases:
  "export_and_store a e s t st =
     (case prepare_form_data a (fst (determine_databases a t st)) t of
        Inl err \<Rightarrow> (Inl err, snd (determine_databases a t st))
      | Inr p \<Rightarrow>
          (case fst (session_post e s (urljoin e (url a) (fst p)) (snd p) (timeout a) True
                       (snd (determine_databases a t st))) of
             Inl err \<Rightarrow> (Inl err, snd (session_post e s (urljoin e (url a) (fst p)) (snd p) (timeout a) True
                                         (snd (determine_databases a t st))))
           | Inr file_response \<Rightarrow>
               store_download a e file_response
                 (snd (session_post e s (urljoin e (url a) (fst p)) (snd p) (timeout a) True
                         (snd (determine_databases a t st))))))"
  by (simp add: export_and_store_def split: prod.splits sum.splits)

lemma export_and_store_lockstep:
  assumes view: "same_view st1 st2"
    and p1: "prefix (map snd (exchanges (snd (export_and_store a e s t st1)))) R"
    and p2: "prefix (map snd (exchanges (snd (export_and_store a e s t st2)))) R"
  shows "fst (export_and_store a e s t st1) = fst (export_and_store a e s t st2) \<and>
         same_view (snd (export_and_store a e s t st1)) (snd (export_and_store a e s t st2))"
proof -
  let ?d1 = "snd (determine_databases a t st1)" and ?d2 = "snd (determine_databases a t st2)"
  from determine_databases_lockstep [OF view, of a t]
  have dbs: "fst (determine_databases a t st2) = fst (determine_databases a t st1)"
    and view1: "same_view ?d1 ?d2" by simp_all
  show ?thesis
  proof (cases "prepare_form_data a (fst (determine_databases a t st1)) t")
    case (Inl err)
    with dbs view1 show ?thesis by (simp add: export_and_store_cases)
  next
    case (Inr p)
    let ?p1 = "session_post e s (urljoin e (url a) (fst p)) (snd p) (timeout a) True ?d1"
    let ?p2 = "session_post e s (urljoin e (url a) (fst p)) (snd p) (timeout a) True ?d2"
    have ex1: "exchanges (snd (export_and_store a e s t st1)) = exchanges (snd ?p1)"
      using Inr by (simp add: export_and_store_cases store_download_exchanges split: sum.splits)
    have ex2: "exchanges (snd (export_and_store a e s t st2)) = exchanges (snd ?p2)"
      using Inr dbs by (simp add: export_and_store_cases store_download_exchanges split: sum.splits)
    from p1 p2 have post: "fst ?p1 = fst ?p2 \<and> same_view (snd ?p1) (snd ?p2)"
      unfolding ex1 ex2 by (rule session_post_lockstep [OF view1])
    show ?thesis
    proof (cases "fst ?p1")
      case (Inl err)
      with post have "fst ?p2 = Inl err" by simp
      with Inl Inr dbs post show ?thesis by (simp add: export_and_store_cases)
    next
      case r: (Inr file_response)
      with post have "fst ?p2 = Inr file_response" by simp
      with r Inr dbs have "export_and_store a e s t st1 = store_download a e file_response (snd ?p1)"
        "export_and_store a e s t st2 = store_download a e file_response (snd ?p2)"
        by (simp_all add: export_and_store_cases)
      with post show ?thesis by (simp add: store_download_lockstep)
    qed
  qed
qed

lemma access_export_page_password:
  "access_export_page (a\<lparr>password := q\<rparr>) e s u st = access_export_page a e s u st"
  by (simp add: access_export_page_def)

lemma determine_databases_password:
  "determine_databases (a\<lparr>password := q\<rparr>) t st = determine_databases a t st"
  by (simp add: determine_databases_def exclude_dbs_list_def)

lemma prepare_form_data_password:
  "prepare_form_data (a\<lparr>password := q\<rparr>) dbs t = prepare_form_data a dbs t"
  by (simp add: prepare_form_data_def cong: list.case_cong)

lemma prefix_format_or_default_password:
  "prefix_format_or_default (a\<lparr>password := q\<rparr>) = prefix_format_or_default a"
  by (simp add: prefix_format_or_default_def)

lemma plain_out_filename_password:
  "plain_out_filename (a\<lparr>password := q\<rparr>) e fn = plain_out_filename a e fn"
  by (simp add: plain_out_filename_def prefix_format_or_default_password cong: if_cong)

lemma resolve_filename_password:
  "resolve_filename (a\<lparr>password := q\<rparr>) e fn st = resolve_filename a e fn st"
  by (simp add: resolve_filename_def plain_out_filename_password)

lemma save_file_password:
  "save_file (a\<lparr>password := q\<rparr>) e r out st = save_file a e r out st"
  by (simp add: save_file_def)

lemma store_download_password:
  "store_download (a\<lparr>password := q\<rparr>) e r st = store_download a e r st"
  by (simp add: store_download_def resolve_filename_password save_file_password
      cong: sum.case_cong prod.case_cong)

lemma export_and_store_password:
  "export_and_store (a\<lparr>password := q\<rparr>) e s t st = export_and_store a e s t st"
  by (simp add: export_and_store_def determine_databases_password prepare_form_data_password
      store_download_password cong: sum.case_cong prod.case_cong)

lemma download_sql_backup_cases:
  "download_sql_backup a e =
     (case fst (login a e Session initial_state) of
        Inl err \<Rightarrow> (Inl err, snd (login a e Session initial_state))
      | Inr tree \<Rightarrow>
          (case extract_export_url tree of
             Inl err \<Rightarrow> (Inl err, snd (login a e Session initial_state))
           | Inr export_url \<Rightarrow>
               (case fst (access_export_page a e Session export_url (snd (login a e Session initial_state))) of
                  Inl err \<Rightarrow> (Inl err, snd (access_export_page a e Session export_url
                                               (snd (login a e Session initial_state))))
                | Inr export_tree \<Rightarrow>
                    export_and_store a e Session export_tree
                      (snd (access_export_page a e Session export_url
                              (snd (login a e Session initial_state)))))))"
  by (simp add: download_sql_backup_def Let_def split: prod.splits sum.splits)

text \<open>
  C9, as the script has it: two runs that differ only in the password, and whose calls of
  the session come out the same (the same response, or the same exception), end alike:
  the same error or the same path, the same lines on the error stream, the same files
  written. The script hands the password to the login request and to nothing else; what
  a message shows of it comes back from a call.
\<close>

theorem password_not_in_outcome:
  assumes "map snd (exchanges (snd (download_sql_backup (a\<lparr>password := q1\<rparr>) e))) =
           map snd (exchanges (snd (download_sql_backup (a\<lparr>password := q2\<rparr>) e)))"
  shows "fst (download_sql_backup (a\<lparr>password := q1\<rparr>) e) =
         fst (download_sql_backup (a\<lparr>password := q2\<rparr>) e) \<and>
         stderr (snd (download_sql_backup (a\<lparr>password := q1\<rparr>) e)) =
         stderr (snd (download_sql_backup (a\<lparr>password := q2\<rparr>) e)) \<and>
         written (snd (download_sql_backup (a\<lparr>password := q1\<rparr>) e)) =
         written (snd (download_sql_backup (a\<lparr>password := q2\<rparr>) e))"
proof -
  let ?a1 = "a\<lparr>password := q1\<rparr>" and ?a2 = "a\<lparr>password := q2\<rparr>"
  define R where "R = map snd (exchanges (snd (download_sql_backup ?a2 e)))"
  have f1: "prefix (map snd (exchanges (snd (download_sql_backup ?a1 e)))) R"
    and f2: "prefix (map snd (exchanges (snd (download_sql_backup ?a2 e)))) R"
    using assms by (simp_all add: R_def)
  let ?l1 = "login ?a1 e Session initial_state" and ?l2 = "login ?a2 e Session initial_state"
  have "prefix (map snd (exchanges (snd ?l1))) (map snd (exchanges (snd (download_sql_backup ?a1 e))))"
    by (intro map_mono_prefix download_sql_backup_prefix)
  from this f1 have l1: "prefix (map snd (exchanges (snd ?l1))) R" by (rule prefix_order.trans)
  have "prefix (map snd (exchanges (snd ?l2))) (map snd (exchanges (snd (download_sql_backup ?a2 e))))"
    by (intro map_mono_prefix download_sql_backup_prefix)
  from this f2 have l2: "prefix (map snd (exchanges (snd ?l2))) R" by (rule prefix_order.trans)
  have "same_view initial_state initial_state" by (simp add: same_view_def)
  from login_lockstep [OF this l1 l2]
  have login_eq: "fst ?l2 = fst ?l1" and view1: "same_view (snd ?l1) (snd ?l2)" by simp_all
  have goal: "fst (download_sql_backup ?a1 e) = fst (download_sql_backup ?a2 e) \<and>
      same_view (snd (download_sql_backup ?a1 e)) (snd (download_sql_backup ?a2 e))"
  proof (cases "fst ?l1")
    case (Inl err)
    with login_eq view1 show ?thesis by (simp add: download_sql_backup_cases)
  next
    case (Inr tree)
    show ?thesis
    proof (cases "extract_export_url tree")
      case (Inl err)
      with Inr login_eq view1 show ?thesis by (simp add: download_sql_backup_cases)
    next
      case u: (Inr export_url)
      let ?x1 = "access_export_page a e Session export_url (snd ?l1)"
      let ?x2 = "access_export_page a e Session export_url (snd ?l2)"
      have d1: "download_sql_backup ?a1 e =
          (case fst ?x1 of
             Inl err \<Rightarrow> (Inl err, snd ?x1)
           | Inr export_tree \<Rightarrow> export_and_store a e Session export_tree (snd ?x1))"
        using Inr u
        by (simp add: download_sql_backup_cases [of ?a1] access_export_page_password
            export_and_store_password cong: sum.case_cong)
      have d2: "download_sql_backup ?a2 e =
          (case fst ?x2 of
             Inl err \<Rightarrow> (Inl err, snd ?x2)
           | Inr export_tree \<Rightarrow> export_and_store a e Session export_tree (snd ?x2))"
        using Inr u login_eq
        by (simp add: download_sql_backup_cases [of ?a2] access_export_page_password
            export_and_store_password cong: sum.case_cong)
      have "prefix (exchanges (snd ?x1)) (exchanges (snd (download_sql_backup ?a1 e)))"
        unfolding d1 by (simp add: export_and_store_prefix split: sum.splits)
      then have "prefix (map snd (exchanges (snd ?x1))) (map snd (exchanges (snd (download_sql_backup ?a1 e))))"
        by (rule map_mono_prefix)
      from this f1 have x1: "prefix (map snd (exchanges (snd ?x1))) R" by (rule prefix_order.trans)
      have "prefix (exchanges (snd ?x2)) (exchanges (snd (download_sql_backup ?a2 e)))"
        unfolding d2 by (simp add: export_and_store_prefix split: sum.splits)
      then have "prefix (map snd (exchanges (snd ?x2))) (map snd (exchanges (snd (download_sql_backup ?a2 e))))"
        by (rule map_mono_prefix)
      from this f2 have x2: "prefix (map snd (exchanges (snd ?x2))) R" by (rule prefix_order.trans)
      from access_export_page_lockstep [OF view1 x1 x2]
      have page_eq: "fst ?x2 = fst ?x1" and view2: "same_view (snd ?x1) (snd ?x2)" by simp_all
      show ?thesis
      proof (cases "fst ?x1")
        case (Inl err)
        with page_eq view2 show ?thesis by (simp add: d1 d2)
      next
        case t: (Inr export_tree)
        with page_eq have e1: "download_sql_backup ?a1 e = export_and_store a e Session export_tree (snd ?x1)"
          and e2: "download_sql_backup ?a2 e = export_and_store a e Session export_tree (snd ?x2)"
          by (simp_all add: d1 d2)
        from f1 f2 show ?thesis
          unfolding e1 e2 by (rule export_and_store_lockstep [OF view2])
      qed
    qed
  qed
  then show ?thesis by (simp add: same_view_def)
qed


text \<open>
  Without that condition the claim fails. Line 127 quotes the header the server sent, so
  a console that repeats the password there puts it into the message; and the exception
  of a request that cannot encode the password tells where the offending byte stands.
\<close>

theorem password_not_in_outcome_counterexample:
  "fst (download_sql_backup (sample_args\<lparr>password := ''hunter2''\<rparr>) (sample_env reflecting_server [])) =
     Inl (ValueError ''Could not determine SQL backup filename from attachment; name=hunter2'') \<and>
   fst (download_sql_backup (sample_args\<lparr>password := ''letmein''\<rparr>) (sample_env reflecting_server [])) =
     Inl (ValueError ''Could not determine SQL backup filename from attachment; name=letmein'') \<and>
   fst (download_sql_backup (sample_args\<lparr>password := ''pass'' @ [CHR 0xFF]\<rparr>)
          (sample_env encoding_server [])) =
     Inl (RequestError ''utf-8 codec cannot encode character in position 4'') \<and>
   fst (download_sql_backup (sample_args\<lparr>password := [CHR 0xFF] @ ''pass''\<rparr>)
          (sample_env encoding_server [])) =
     Inl (RequestError ''utf-8 codec cannot encode character in position 0'')"
  by code_simp

theorem password_not_in_outcome_witness:
  "fst (download_sql_backup (sample_args\<lparr>password := ''hunter2''\<rparr>)
          (sample_env (sample_server sample_login_page 200 (sample_export_page []) []) [])) =
   fst (download_sql_backup (sample_args\<lparr>password := ''letmein''\<rparr>)
          (sample_env (sample_server sample_login_page 200 (sample_export_page []) []) [])) \<and>
   fst (download_sql_backup (sample_args\<lparr>password := ''letmein''\<rparr>)
          (sample_env (sample_server sample_login_page 200 (sample_export_page []) []) [])) =
   Inl (ValueError ''Could not determine SQL backup filename from '')"
proof -
  let ?e = "sample_env (sample_server sample_login_page 200 (sample_export_page []) []) []"
  have "map snd (exchanges (snd (download_sql_backup (sample_args\<lparr>password := ''hunter2''\<rparr>) ?e))) =
        map snd (exchanges (snd (download_sql_backup (sample_args\<lparr>password := ''letmein''\<rparr>) ?e)))"
    by code_simp
  then have "fst (download_sql_backup (sample_args\<lparr>password := ''hunter2''\<rparr>) ?e) =
      fst (download_sql_backup (sample_args\<lparr>password := ''letmein''\<rparr>) ?e)"
    using password_not_in_outcome [of "''hunter2''" sample_args ?e "''letmein''"] by blast
  moreover have "fst (download_sql_backup (sample_args\<lparr>password := ''letmein''\<rparr>) ?e) =
      Inl (ValueError ''Could not determine SQL backup filename from '')"
    by code_simp
  ultimately show ?thesis by blast
qed

section \<open>Credentials on the requests\<close>

lemma session_request_no_auth:
  assumes "list_all (\<lambda>x. rq_auth (fst x) = None) (exchanges st)"
  shows "list_all (\<lambda>x. rq_auth (fst x) = None) (exchanges (snd (session_request e Session rq st)))"
  using assms by (simp add: session_request_exchanges Session_def)

lemma login_no_auth:
  assumes "list_all (\<lambda>x. rq_auth (fst x) = None) (exchanges st)"
  shows "list_all (\<lambda>x. rq_auth (fst x) = None) (exchanges (snd (login a e Session st)))"
proof -
  have g: "list_all (\<lambda>x. rq_auth (fst x) = None)
      (exchanges (snd (session_get e Session (url a) (timeout a) st)))"
    unfolding session_get_def using assms by (rule session_request_no_auth)
  have "list_all (\<lambda>x. rq_auth (fst x) = None)
      (exchanges (snd (submit_login a e Session tree (snd (session_get e Session (url a) (timeout a) st)))))"
    for tree
    unfolding submit_login_state session_post_def using g by (rule session_request_no_auth)
  with g show ?thesis
    unfolding login_cases [of a e Session st] by (simp split: sum.splits option.splits)
qed

lemma access_export_page_no_auth:
  assumes "list_all (\<lambda>x. rq_auth (fst x) = None) (exchanges st)"
  shows "list_all (\<lambda>x. rq_auth (fst x) = None)
           (exchanges (snd (access_export_page a e Session u st)))"
  unfolding access_export_page_cases snd_conv session_get_def
  using assms by (rule session_request_no_auth)

lemma export_and_store_no_auth:
  assumes "list_all (\<lambda>x. rq_auth (fst x) = None) (exchanges st)"
  shows "list_all (\<lambda>x. rq_auth (fst x) = None)
           (exchanges (snd (export_and_store a e Session t st)))"
proof -
  from assms have d: "list_all (\<lambda>x. rq_auth (fst x) = None)
      (exchanges (snd (determine_databases a t st)))"
    by (simp add: determine_databases_exchanges)
  have "list_all (\<lambda>x. rq_auth (fst x) = None)
      (exchanges (snd (session_post e Session u fd (timeout a) True (snd (determine_databases a t st)))))"
    for u fd
    unfolding session_post_def using d by (rule session_request_no_auth)
  with d show ?thesis
    unfolding export_and_store_cases [of a e Session t st]
    by (simp add: store_download_exchanges split: sum.splits)
qed

text \<open>Whatever the arguments, no request of a run carries credentials.\<close>

lemma download_sql_backup_no_auth:
  "list_all (\<lambda>x. rq_auth (fst x) = None) (exchanges (snd (download_sql_backup a e)))"
proof -
  have "list_all (\<lambda>x. rq_auth (fst x) = None) (exchanges initial_state)"
    by (simp add: initial_state_def)
  then have l: "list_all (\<lambda>x. rq_auth (fst x) = None) (exchanges (snd (login a e Session initial_state)))"
    by (rule login_no_auth)
  then have x: "list_all (\<lambda>x. rq_auth (fst x) = None)
      (exchanges (snd (access_export_page a e Session u (snd (login a e Session initial_state)))))" for u
    by (rule access_export_page_no_auth)
  then have "list_all (\<lambda>x. rq_auth (fst x) = None)
      (exchanges (snd (export_and_store a e Session t
         (snd (access_export_page a e Session u (snd (login a e Session initial_state)))))))" for u t
    by (rule export_and_store_no_auth)
  with l x show ?thesis
    unfolding download_sql_backup_cases [of a e] by (simp split: sum.splits)
qed

section \<open>The status of the login responses\<close>

text \<open>The two requests of the login do look at the status.\<close>

lemma login_page_status_checked:
  assumes "fst (session_get e Session (url a) (timeout a) initial_state) = Inr response"
    and "status_code response \<noteq> 200"
  shows "fst (download_sql_backup a e) = Inl (ValueError ''Failed to load the login page.'')"
proof -
  from assms have "fst (login a e Session initial_state) =
      Inl (ValueError ''Failed to load the login page.'')"
    by (simp add: login_cases)
  then show ?thesis by (simp add: download_sql_backup_cases)
qed

lemma login_post_status_checked:
  assumes "fst (session_post e s
            (urljoin e (url a) (case xpath_login_form_action tree of [] \<Rightarrow> url a | x # _ \<Rightarrow> x))
            (add_hidden_inputs [(''pma_username'', Str (user a)), (''pma_password'', Str (password a))]
               (xpath_login_hidden_inputs tree))
            (timeout a) False st) = Inr login_response"
    and "status_code login_response \<noteq> 200"
  shows "fst (submit_login a e s tree st) =
      Inl (ValueError ''Could not log in. Please check your credentials.'')"
  using assms by (simp add: submit_login_result)

section \<open>The file name of the download\<close>

text \<open>
  C4: once the export form is submitted and a response has come back, the run fails
  with the file name error exactly when that response has no \<^verbatim>\<open>Content-Disposition\<close>
  header or the header's value does not match the pattern; when it matches, the name
  between the quotes (of the match that starts furthest to the right) is the suggested
  file name, and the run goes on to resolve the path and store that response.
\<close>

theorem filename_error_iff:
  assumes "prepare_form_data a (fst (determine_databases a export_tree st)) export_tree =
             Inr (dump_form_action, form_data)"
    and "fst (session_post e session (urljoin e (url a) dump_form_action) form_data (timeout a) True
                (snd (determine_databases a export_tree st))) = Inr file_response"
  shows "((\<exists>m. fst (export_and_store a e session export_tree st) =
          Inl (ValueError (''Could not determine SQL backup filename from '' @ m))) \<longleftrightarrow>
      (map_of (headers file_response) ''Content-Disposition'' = None \<or>
       (\<exists>cd. map_of (headers file_response) ''Content-Disposition'' = Some cd \<and>
             \<not> (\<exists>pre fn. re_parse cd pre fn)))) \<and>
   (\<forall>cd pre fn.
      map_of (headers file_response) ''Content-Disposition'' = Some cd \<and> re_parse cd pre fn \<and>
      (\<forall>pre' fn'. re_parse cd pre' fn' \<longrightarrow> length pre' \<le> length pre) \<longrightarrow>
      content_filename_of file_response = Inr fn \<and>
      export_and_store a e session export_tree st =
        (case resolve_filename a e fn
                (snd (session_post e session (urljoin e (url a) dump_form_action) form_data
                        (timeout a) True (snd (determine_databases a export_tree st)))) of
           (out_filename, st1) \<Rightarrow> save_file a e file_response out_filename st1))"
proof -
  let ?st2 = "snd (session_post e session (urljoin e (url a) dump_form_action) form_data
                        (timeout a) True (snd (determine_databases a export_tree st)))"
  from assms have run: "export_and_store a e session export_tree st =
      store_download a e file_response ?st2"
    by (simp add: export_and_store_cases)
  show ?thesis unfolding run by (rule store_download_filename)
qed

theorem filename_error_iff_witness:
  "(\<exists>m. fst (export_and_store sample_args (sample_env (\<lambda>h. Inr (sample_download [])) [])
              Session (sample_export_page []) initial_state) =
         Inl (ValueError (''Could not determine SQL backup filename from '' @ m))) \<and>
   fst (export_and_store sample_args
          (sample_env (\<lambda>h. Inr (sample_download [(''Content-Disposition'', sample_disposition)])) [])
          Session (sample_export_page []) initial_state) =
     Inr ''/var/backups/shop_logs.sql''"
proof -
  let ?fd = "[(''db_select[]'', StrList [''shop'', ''logs'']), (''compression'', Str ''none''),
             (''what'', Str ''sql''), (''filename_template'', Str ''@SERVER@''),
             (''sql_structure_or_data'', Str ''structure_and_data''), (''token'', Str ''5a3f'')]"
  let ?page = "sample_export_page []"
  let ?bare = "sample_download []"
  let ?e0 = "sample_env (\<lambda>h. Inr ?bare) []"
  let ?named = "sample_download [(''Content-Disposition'', sample_disposition)]"
  let ?e1 = "sample_env (\<lambda>h. Inr ?named) []"
  have form: "prepare_form_data sample_args (fst (determine_databases sample_args ?page initial_state)) ?page =
      Inr (''index.php?route=/export'', ?fd)"
    by code_simp
  have reply0: "fst (session_post ?e0 Session (urljoin ?e0 (url sample_args) ''index.php?route=/export'') ?fd
      (timeout sample_args) True (snd (determine_databases sample_args ?page initial_state))) = Inr ?bare"
    by (simp add: session_post_def session_request_def sample_env_def Let_def)
  have absent: "map_of (headers ?bare) ''Content-Disposition'' = None"
    by (simp add: sample_download_def)
  have first: "\<exists>m. fst (export_and_store sample_args ?e0 Session ?page initial_state) =
         Inl (ValueError (''Could not determine SQL backup filename from '' @ m))"
    using filename_error_iff [OF form reply0] absent by blast
  have reply1: "fst (session_post ?e1 Session (urljoin ?e1 (url sample_args) ''index.php?route=/export'') ?fd
      (timeout sample_args) True (snd (determine_databases sample_args ?page initial_state))) = Inr ?named"
    by (simp add: session_post_def session_request_def sample_env_def Let_def)
  have present: "map_of (headers ?named) ''Content-Disposition'' = Some sample_disposition"
    by (simp add: sample_download_def)
  have "CONTENT_DISPOSITION_FILENAME_RE_match sample_disposition = Some ''shop_logs.sql''"
    by code_simp
  then obtain pre where "re_parse sample_disposition pre ''shop_logs.sql''"
    "\<forall>pre' fn'. re_parse sample_disposition pre' fn' \<longrightarrow> length pre' \<le> length pre"
    unfolding re_match_Some by blast
  with present have "export_and_store sample_args ?e1 Session ?page initial_state =
        (case resolve_filename sample_args ?e1 ''shop_logs.sql''
                (snd (session_post ?e1 Session (urljoin ?e1 (url sample_args) ''index.php?route=/export'') ?fd
                        (timeout sample_args) True (snd (determine_databases sample_args ?page initial_state)))) of
           (out_filename, st1) \<Rightarrow> save_file sample_args ?e1 ?named out_filename st1)"
    using filename_error_iff [OF form reply1] by blast
  moreover have "fst (case resolve_filename sample_args ?e1 ''shop_logs.sql''
                (snd (session_post ?e1 Session (urljoin ?e1 (url sample_args) ''index.php?route=/export'') ?fd
                        (timeout sample_args) True (snd (determine_databases sample_args ?page initial_state)))) of
           (out_filename, st1) \<Rightarrow> save_file sample_args ?e1 ?named out_filename st1) =
      Inr ''/var/backups/shop_logs.sql''"
    by code_simp
  ultimately have "fst (export_and_store sample_args ?e1 Session ?page initial_state) =
      Inr ''/var/backups/shop_logs.sql''"
    by simp
  with first show ?thesis by blast
qed

end
